theory Spec2Isabelle
  imports Main
begin

section \<open>Memory model\<close>

text \<open>
  The container of \<^verbatim>\<open>vector.h\<close> separates raw storage (\<^verbatim>\<open>RawMemory<T>\<close>) from the
  objects that live in it (\<^verbatim>\<open>Vector<T>\<close>). The embedding keeps that split.

  \<^item> A block returned by \<^verbatim>\<open>operator new\<close> is a list of cells, found in the store under
    its base address; address \<open>0\<close> is \<^verbatim>\<open>nullptr\<close>. A \<^verbatim>\<open>T*\<close> is a base address
    together with an element offset.
  \<^item> A cell is \<open>Raw\<close> (storage holding no object), \<open>Val v\<close> (a live object of value
    \<open>v\<close>) or \<open>Indet\<close> (a live object whose value is indeterminate, which is what
    default-initialisation \<^verbatim>\<open>new (p) T;\<close> leaves for a scalar type).
  \<^item> \<^verbatim>\<open>Vector\<close> objects are named by a reference, so that \<^verbatim>\<open>this != &rhs\<close> can be
    decided; the store maps every reference to the fields of that object.
  \<^item> \<^verbatim>\<open>size_t\<close> is modelled by \<open>nat\<close>. The decrement \<^verbatim>\<open>--size_\<close> is written with its
    wrap-around at zero. Products such as \<^verbatim>\<open>size_ * 2\<close> are not reduced modulo \<open>2^64\<close>:
    a buffer of \<open>2^63\<close> slots does not fit in the address space.
  \<^item> Allocation never fails in the model (\<^verbatim>\<open>std::bad_alloc\<close> is not modelled), and
    copying or moving an existing element never throws. The only element operation
    that may throw is the constructor call that builds a new element from the
    caller's arguments; it is a function into \<open>option\<close>, \<open>None\<close> meaning a throw.
  \<^item> A move leaves its source a live object that the code afterwards destroys or
    overwrites; the model leaves the source cell as it is.
  \<^item> Assigning through a pointer stores into the cell whatever the cell held before
    (\<^verbatim>\<open>Erase\<close> assigns into the slot whose object it has just destroyed).
  \<^item> A failed \<^verbatim>\<open>assert\<close> is the error \<open>AssertFailed\<close>; a read of a cell that holds no
    object, an access outside a block, a double free, an invalid iterator or an
    invalid range handed to a library algorithm is the error \<open>UB\<close>.
\<close>

type_synonym addr = nat
type_synonym ptr = "addr \<times> nat"
type_synonym vref = nat

datatype 'a cell = Raw | Indet | Val 'a

text \<open>
  The members \<^verbatim>\<open>buffer_\<close>, \<^verbatim>\<open>capacity_\<close>, \<^verbatim>\<open>data_\<close> and \<^verbatim>\<open>size_\<close> are the fields
  \<open>m_buffer\<close>, \<open>m_capacity\<close>, \<open>m_data\<close> and \<open>m_size\<close>.
\<close>

record RawMemory =
  m_buffer :: addr
  m_capacity :: nat

record Vector =
  m_data :: RawMemory
  m_size :: nat

record 'a store =
  vecs :: "vref \<Rightarrow> Vector"
  blocks :: "addr \<Rightarrow> 'a cell list option"
  brk :: addr

datatype 'a error = Exception "'a store" | AssertFailed | UB

text \<open>What the code asks of the element type \<open>T\<close>.\<close>

record 'a elem_type =
  default_init :: "'a option"
  value_init :: 'a
  nothrow_move_constructible :: bool
  copy_constructible :: bool

definition bnd :: "'e + 'x \<Rightarrow> ('x \<Rightarrow> 'e + 'y) \<Rightarrow> 'e + 'y" where
  "bnd m f = (case m of Inl e \<Rightarrow> Inl e | Inr x \<Rightarrow> f x)"

definition size_t_dec :: "nat \<Rightarrow> nat" where
  "size_t_dec n = (if n = 0 then 2 ^ 64 - 1 else n - 1)"

subsection \<open>Cells\<close>

definition load :: "'a store \<Rightarrow> ptr \<Rightarrow> 'a error + 'a cell" where
  "load s p =
     (case blocks s (fst p) of
        None \<Rightarrow> Inl UB
      | Some cs \<Rightarrow> if snd p < length cs \<and> cs ! snd p \<noteq> Raw then Inr (cs ! snd p) else Inl UB)"

definition put :: "'a store \<Rightarrow> ptr \<Rightarrow> 'a cell \<Rightarrow> 'a error + 'a store" where
  "put s p c =
     (case blocks s (fst p) of
        None \<Rightarrow> Inl UB
      | Some cs \<Rightarrow>
          if snd p < length cs
          then Inr (s\<lparr>blocks := (blocks s)(fst p \<mapsto> cs[snd p := c])\<rparr>)
          else Inl UB)"

text \<open>Placement new of a given value, assignment through a pointer, and a destructor call.\<close>

definition construct_at :: "'a store \<Rightarrow> ptr \<Rightarrow> 'a cell \<Rightarrow> 'a error + 'a store" where
  "construct_at s p c = put s p c"

definition assign_at :: "'a store \<Rightarrow> ptr \<Rightarrow> 'a cell \<Rightarrow> 'a error + 'a store" where
  "assign_at s p c = put s p c"

definition destroy_at :: "'a store \<Rightarrow> ptr \<Rightarrow> 'a error + 'a store" where
  "destroy_at s p = bnd (load s p) (\<lambda>_. put s p Raw)"

subsection \<open>Library algorithms on uninitialised memory\<close>

fun uninitialized_copy_n :: "'a store \<Rightarrow> ptr \<Rightarrow> nat \<Rightarrow> ptr \<Rightarrow> 'a error + 'a store" where
  "uninitialized_copy_n s first 0 d_first = Inr s"
| "uninitialized_copy_n s first (Suc n) d_first =
     bnd (load s first) (\<lambda>c.
     bnd (construct_at s d_first c) (\<lambda>s'.
     uninitialized_copy_n s' (fst first, Suc (snd first)) n (fst d_first, Suc (snd d_first))))"

definition uninitialized_move_n :: "'a store \<Rightarrow> ptr \<Rightarrow> nat \<Rightarrow> ptr \<Rightarrow> 'a error + 'a store" where
  "uninitialized_move_n s first n d_first = uninitialized_copy_n s first n d_first"

fun uninitialized_value_construct_n ::
  "'a elem_type \<Rightarrow> 'a store \<Rightarrow> ptr \<Rightarrow> nat \<Rightarrow> 'a error + 'a store" where
  "uninitialized_value_construct_n T s first 0 = Inr s"
| "uninitialized_value_construct_n T s first (Suc n) =
     bnd (construct_at s first (Val (value_init T))) (\<lambda>s'.
     uninitialized_value_construct_n T s' (fst first, Suc (snd first)) n)"

fun uninitialized_default_construct_n ::
  "'a elem_type \<Rightarrow> 'a store \<Rightarrow> ptr \<Rightarrow> nat \<Rightarrow> 'a error + 'a store" where
  "uninitialized_default_construct_n T s first 0 = Inr s"
| "uninitialized_default_construct_n T s first (Suc n) =
     bnd (construct_at s first (case default_init T of None \<Rightarrow> Indet | Some d \<Rightarrow> Val d)) (\<lambda>s'.
     uninitialized_default_construct_n T s' (fst first, Suc (snd first)) n)"

fun destroy_n :: "'a store \<Rightarrow> ptr \<Rightarrow> nat \<Rightarrow> 'a error + 'a store" where
  "destroy_n s first 0 = Inr s"
| "destroy_n s first (Suc n) =
     bnd (destroy_at s first) (\<lambda>s'. destroy_n s' (fst first, Suc (snd first)) n)"

text \<open>
  \<^verbatim>\<open>std::move_backward(first, last, d_last)\<close> requires \<open>[first, last)\<close> to be a valid range;
  it then assigns \<^verbatim>\<open>*(--d_last) = std::move(*(--last))\<close> until \<open>first = last\<close>.
  \<open>move_backward_n\<close> is that loop, counted by the elements still to move.
\<close>

fun move_backward_n :: "'a store \<Rightarrow> ptr \<Rightarrow> nat \<Rightarrow> ptr \<Rightarrow> 'a error + 'a store" where
  "move_backward_n s first 0 d_last = Inr s"
| "move_backward_n s first (Suc n) d_last =
     (if snd d_last = 0 then Inl UB
      else bnd (load s (fst first, snd first + n)) (\<lambda>c.
           bnd (assign_at s (fst d_last, snd d_last - 1) c) (\<lambda>s'.
           move_backward_n s' first n (fst d_last, snd d_last - 1))))"

definition move_backward :: "'a store \<Rightarrow> ptr \<Rightarrow> ptr \<Rightarrow> ptr \<Rightarrow> 'a error + 'a store" where
  "move_backward s first lst d_last =
     (if fst first = fst lst \<and> snd first \<le> snd lst
      then move_backward_n s first (snd lst - snd first) d_last
      else Inl UB)"

section \<open>RawMemory\<close>

definition Allocate :: "'a store \<Rightarrow> nat \<Rightarrow> 'a store \<times> addr" where
  "Allocate s n =
     (if n \<noteq> 0
      then (s\<lparr>blocks := (blocks s)(Suc (brk s) \<mapsto> replicate n Raw), brk := Suc (brk s)\<rparr>,
            Suc (brk s))
      else (s, 0))"

definition Deallocate :: "'a store \<Rightarrow> addr \<Rightarrow> 'a error + 'a store" where
  "Deallocate s buf =
     (if buf = 0 then Inr s
      else case blocks s buf of
             None \<Rightarrow> Inl UB
           | Some _ \<Rightarrow> Inr (s\<lparr>blocks := (blocks s)(buf := None)\<rparr>))"

definition RawMemory_default :: RawMemory where
  "RawMemory_default = \<lparr>m_buffer = 0, m_capacity = 0\<rparr>"

definition RawMemory_ctor :: "'a store \<Rightarrow> nat \<Rightarrow> 'a store \<times> RawMemory" where
  "RawMemory_ctor s capacity =
     (let (s', buf) = Allocate s capacity in (s', \<lparr>m_buffer = buf, m_capacity = capacity\<rparr>))"

definition RawMemory_dtor :: "'a store \<Rightarrow> RawMemory \<Rightarrow> 'a error + 'a store" where
  "RawMemory_dtor s m = Deallocate s (m_buffer m)"

text \<open>
  \<^verbatim>\<open>RawMemory::operator=(RawMemory&&)\<close>, from the fields of \<^verbatim>\<open>*this\<close> and \<^verbatim>\<open>rhs\<close> to
  their fields afterwards. It calls neither \<^verbatim>\<open>Deallocate\<close> nor anything else that
  touches the heap. When both names denote one object the buffers are equal and
  nothing is done.
\<close>

definition RawMemory_move_assign :: "RawMemory \<Rightarrow> RawMemory \<Rightarrow> RawMemory \<times> RawMemory" where
  "RawMemory_move_assign this rhs =
     (if m_buffer this \<noteq> m_buffer rhs
      then (\<lparr>m_buffer = m_buffer rhs, m_capacity = m_capacity rhs\<rparr>, \<lparr>m_buffer = 0, m_capacity = 0\<rparr>)
      else (this, rhs))"

text \<open>\<^verbatim>\<open>RawMemory(RawMemory&&)\<close>: the members start as \<^verbatim>\<open>nullptr\<close> and \<open>0\<close>.\<close>

definition RawMemory_move_ctor :: "'a store \<Rightarrow> RawMemory \<Rightarrow> 'a error + ('a store \<times> RawMemory \<times> RawMemory)" where
  "RawMemory_move_ctor s other =
     bnd (Deallocate s (m_buffer RawMemory_default)) (\<lambda>s'.
     Inr (s', \<lparr>m_buffer = m_buffer other, m_capacity = m_capacity other\<rparr>,
              \<lparr>m_buffer = 0, m_capacity = 0\<rparr>))"

definition RawMemory_Swap :: "RawMemory \<Rightarrow> RawMemory \<Rightarrow> RawMemory \<times> RawMemory" where
  "RawMemory_Swap this other = (other, this)"

definition RawMemory_plus :: "RawMemory \<Rightarrow> nat \<Rightarrow> 'a error + ptr" where
  "RawMemory_plus m offset =
     (if offset \<le> m_capacity m then Inr (m_buffer m, offset) else Inl AssertFailed)"

definition RawMemory_index :: "RawMemory \<Rightarrow> nat \<Rightarrow> 'a error + ptr" where
  "RawMemory_index m index =
     (if index < m_capacity m then Inr (m_buffer m, index) else Inl AssertFailed)"

section \<open>Vector\<close>

definition Vector_default :: Vector where
  "Vector_default = \<lparr>m_data = RawMemory_default, m_size = 0\<rparr>"

definition set_vec :: "'a store \<Rightarrow> vref \<Rightarrow> Vector \<Rightarrow> 'a store" where
  "set_vec s r v = s\<lparr>vecs := (vecs s)(r := v)\<rparr>"

definition set_data :: "'a store \<Rightarrow> vref \<Rightarrow> RawMemory \<Rightarrow> 'a store" where
  "set_data s r m = set_vec s r ((vecs s r)\<lparr>m_data := m\<rparr>)"

definition set_size :: "'a store \<Rightarrow> vref \<Rightarrow> nat \<Rightarrow> 'a store" where
  "set_size s r n = set_vec s r ((vecs s r)\<lparr>m_size := n\<rparr>)"

definition Size :: "'a store \<Rightarrow> vref \<Rightarrow> nat" where
  "Size s this = m_size (vecs s this)"

definition Capacity :: "'a store \<Rightarrow> vref \<Rightarrow> nat" where
  "Capacity s this = m_capacity (m_data (vecs s this))"

definition GetAddress :: "'a store \<Rightarrow> vref \<Rightarrow> addr" where
  "GetAddress s this = m_buffer (m_data (vecs s this))"

definition Vector_begin :: "'a store \<Rightarrow> vref \<Rightarrow> ptr" where
  "Vector_begin s this = (GetAddress s this, 0)"

definition Vector_end :: "'a store \<Rightarrow> vref \<Rightarrow> ptr" where
  "Vector_end s this = (GetAddress s this, Size s this)"

text \<open>\<^verbatim>\<open>operator[]\<close>, and the value read through the reference it returns.\<close>

definition Vector_index :: "'a store \<Rightarrow> vref \<Rightarrow> nat \<Rightarrow> 'a error + ptr" where
  "Vector_index s this index =
     (if index < Size s this then RawMemory_index (m_data (vecs s this)) index
      else Inl AssertFailed)"

definition at :: "'a store \<Rightarrow> vref \<Rightarrow> nat \<Rightarrow> 'a error + 'a cell" where
  "at s this index = bnd (Vector_index s this index) (\<lambda>p. load s p)"

text \<open>
  The relocation that the \<^verbatim>\<open>if constexpr\<close> of \<^verbatim>\<open>PushBack\<close>, \<^verbatim>\<open>Emplace\<close>,
  \<^verbatim>\<open>EmplaceBack\<close> and \<^verbatim>\<open>Reserve\<close> selects.
\<close>

definition relocate :: "'a elem_type \<Rightarrow> 'a store \<Rightarrow> ptr \<Rightarrow> nat \<Rightarrow> ptr \<Rightarrow> 'a error + 'a store" where
  "relocate T s first n d_first =
     (if nothrow_move_constructible T \<or> \<not> copy_constructible T
      then uninitialized_move_n s first n d_first
      else uninitialized_copy_n s first n d_first)"

subsection \<open>Constructors and destructor\<close>

definition Vector_ctor :: "'a store \<Rightarrow> vref \<Rightarrow> 'a store" where
  "Vector_ctor s this = set_vec s this Vector_default"

definition Vector_sized :: "'a elem_type \<Rightarrow> 'a store \<Rightarrow> vref \<Rightarrow> nat \<Rightarrow> 'a error + 'a store" where
  "Vector_sized T s this n =
     (let (s1, m) = RawMemory_ctor s n;
          s2 = set_vec s1 this \<lparr>m_data = m, m_size = n\<rparr>
      in uninitialized_value_construct_n T s2 (GetAddress s2 this, 0) (Size s2 this))"

text \<open>
  The copy constructor, building the fields of the new object from the object \<open>other\<close>;
  \<open>Vector_copy\<close> places them at a reference, \<^verbatim>\<open>operator=\<close> keeps them in a local.
\<close>

definition Vector_copy_local :: "'a store \<Rightarrow> vref \<Rightarrow> 'a error + ('a store \<times> Vector)" where
  "Vector_copy_local s other =
     (let (s1, m) = RawMemory_ctor s (Size s other);
          v = \<lparr>m_data = m, m_size = Size s other\<rparr>
      in bnd (uninitialized_copy_n s1 (GetAddress s1 other, 0) (m_size v) (m_buffer (m_data v), 0)) (\<lambda>s2.
         Inr (s2, v)))"

definition Vector_copy :: "'a store \<Rightarrow> vref \<Rightarrow> vref \<Rightarrow> 'a error + 'a store" where
  "Vector_copy s this other =
     bnd (Vector_copy_local s other) (\<lambda>(s', v). Inr (set_vec s' this v))"

definition Vector_move :: "'a store \<Rightarrow> vref \<Rightarrow> vref \<Rightarrow> 'a store" where
  "Vector_move s this other =
     (let s0 = set_vec s this Vector_default;
          (d, d') = RawMemory_move_assign (m_data (vecs s0 this)) (m_data (vecs s0 other));
          s1 = set_data (set_data s0 other d') this d;
          s2 = set_size s1 this (Size s1 other)
      in set_size s2 other 0)"

definition Vector_dtor_local :: "'a store \<Rightarrow> Vector \<Rightarrow> 'a error + 'a store" where
  "Vector_dtor_local s v =
     bnd (destroy_n s (m_buffer (m_data v), 0) (m_size v)) (\<lambda>s'. RawMemory_dtor s' (m_data v))"

definition Vector_dtor :: "'a store \<Rightarrow> vref \<Rightarrow> 'a error + 'a store" where
  "Vector_dtor s this = Vector_dtor_local s (vecs s this)"

subsection \<open>Reserve, Resize, PopBack, Swap\<close>

definition Reserve :: "'a elem_type \<Rightarrow> 'a store \<Rightarrow> vref \<Rightarrow> nat \<Rightarrow> 'a error + 'a store" where
  "Reserve T s this new_capacity =
     (if new_capacity \<le> Capacity s this then Inr s
      else
        let (s1, new_data) = RawMemory_ctor s new_capacity in
        bnd (relocate T s1 (GetAddress s1 this, 0) (Size s1 this) (m_buffer new_data, 0)) (\<lambda>s2.
        bnd (destroy_n s2 (GetAddress s2 this, 0) (Size s2 this)) (\<lambda>s3.
        let (d, new_data') = RawMemory_Swap (m_data (vecs s3 this)) new_data;
            s4 = set_data s3 this d
        in RawMemory_dtor s4 new_data')))"

definition Resize :: "'a elem_type \<Rightarrow> 'a store \<Rightarrow> vref \<Rightarrow> nat \<Rightarrow> 'a error + 'a store" where
  "Resize T s this new_size =
     bnd (if new_size < Size s this
          then destroy_n s (GetAddress s this, new_size) (Size s this - new_size)
          else bnd (Reserve T s this new_size) (\<lambda>s1.
               uninitialized_default_construct_n T s1 (GetAddress s1 this, Size s1 this)
                 (new_size - Size s1 this)))
       (\<lambda>s'. Inr (set_size s' this new_size))"

definition PopBack :: "'a store \<Rightarrow> vref \<Rightarrow> 'a error + 'a store" where
  "PopBack s this =
     (let s1 = set_size s this (size_t_dec (Size s this)) in
      bnd (RawMemory_plus (m_data (vecs s1 this)) (Size s1 this)) (\<lambda>p. destroy_n s1 p 1))"

definition Swap :: "'a store \<Rightarrow> vref \<Rightarrow> vref \<Rightarrow> 'a store" where
  "Swap s this other =
     (let (d, d') = RawMemory_Swap (m_data (vecs s this)) (m_data (vecs s other));
          s1 = set_data (set_data s other d') this d;
          n = Size s1 this;
          s2 = set_size s1 this (Size s1 other)
      in set_size s2 other n)"

subsection \<open>PushBack, EmplaceBack\<close>

text \<open>
  \<open>ctor args\<close> is the constructor call \<^verbatim>\<open>T(std::forward<Args>(args)...)\<close>. When it
  throws in the growth branch, the local \<^verbatim>\<open>relocated_v\<close> is destroyed on the way out.
\<close>

definition EmplaceBack ::
  "'a elem_type \<Rightarrow> 'a store \<Rightarrow> vref \<Rightarrow> ('b \<Rightarrow> 'a option) \<Rightarrow> 'b \<Rightarrow> 'a error + ('a store \<times> ptr)" where
  "EmplaceBack T s this ctor args =
     bnd (if Size s this = Capacity s this then
            (let (s1, relocated_v) = RawMemory_ctor s (if Size s this = 0 then 1 else Size s this * 2) in
             bnd (RawMemory_plus relocated_v (Size s1 this)) (\<lambda>p.
             case ctor args of
               None \<Rightarrow> bnd (RawMemory_dtor s1 relocated_v) (\<lambda>s'. Inl (Exception s'))
             | Some x \<Rightarrow>
             bnd (construct_at s1 p (Val x)) (\<lambda>s2.
             bnd (relocate T s2 (GetAddress s2 this, 0) (Size s2 this) (m_buffer relocated_v, 0)) (\<lambda>s3.
             let (d, relocated_v') = RawMemory_Swap (m_data (vecs s3 this)) relocated_v;
                 s4 = set_data s3 this d
             in
             bnd (destroy_n s4 (m_buffer relocated_v', 0) (m_capacity relocated_v')) (\<lambda>s5.
             RawMemory_dtor s5 relocated_v')))))
          else
            bnd (RawMemory_plus (m_data (vecs s this)) (Size s this)) (\<lambda>p.
            case ctor args of
              None \<Rightarrow> Inl (Exception s)
            | Some x \<Rightarrow> construct_at s p (Val x)))
       (\<lambda>s'.
          let s'' = set_size s' this (Size s' this + 1) in
          bnd (RawMemory_index (m_data (vecs s'' this)) (Size s'' this - 1)) (\<lambda>p. Inr (s'', p)))"

text \<open>\<^verbatim>\<open>PushBack(const T&)\<close> and \<^verbatim>\<open>PushBack(T&&)\<close>: the constructor is the copy or the move constructor.\<close>

definition PushBack_copy :: "'a elem_type \<Rightarrow> 'a store \<Rightarrow> vref \<Rightarrow> 'a \<Rightarrow> 'a error + 'a store" where
  "PushBack_copy T s this v = bnd (EmplaceBack T s this Some v) (\<lambda>(s', _). Inr s')"

definition PushBack_move :: "'a elem_type \<Rightarrow> 'a store \<Rightarrow> vref \<Rightarrow> 'a \<Rightarrow> 'a error + 'a store" where
  "PushBack_move T s this v = bnd (EmplaceBack T s this Some v) (\<lambda>(s', _). Inr s')"

text \<open>The template \<^verbatim>\<open>PushBack(S&&)\<close>, which has a body of its own.\<close>

definition PushBack ::
  "'a elem_type \<Rightarrow> 'a store \<Rightarrow> vref \<Rightarrow> ('b \<Rightarrow> 'a option) \<Rightarrow> 'b \<Rightarrow> 'a error + 'a store" where
  "PushBack T s this ctor v =
     bnd (if Size s this = Capacity s this then
            (let (s1, relocated_v) = RawMemory_ctor s (if Size s this = 0 then 1 else Size s this * 2) in
             bnd (RawMemory_plus relocated_v (Size s1 this)) (\<lambda>p.
             case ctor v of
               None \<Rightarrow> bnd (RawMemory_dtor s1 relocated_v) (\<lambda>s'. Inl (Exception s'))
             | Some x \<Rightarrow>
             bnd (construct_at s1 p (Val x)) (\<lambda>s2.
             bnd (relocate T s2 (GetAddress s2 this, 0) (Size s2 this) (m_buffer relocated_v, 0)) (\<lambda>s3.
             let (d, relocated_v') = RawMemory_Swap (m_data (vecs s3 this)) relocated_v;
                 s4 = set_data s3 this d
             in
             bnd (destroy_n s4 (m_buffer relocated_v', 0) (m_capacity relocated_v')) (\<lambda>s5.
             RawMemory_dtor s5 relocated_v')))))
          else
            bnd (RawMemory_plus (m_data (vecs s this)) (Size s this)) (\<lambda>p.
            case ctor v of
              None \<Rightarrow> Inl (Exception s)
            | Some x \<Rightarrow> construct_at s p (Val x)))
       (\<lambda>s'. Inr (set_size s' this (Size s' this + 1)))"

subsection \<open>Emplace, Insert, Erase\<close>

text \<open>
  An iterator is a \<^verbatim>\<open>T*\<close>. \<^verbatim>\<open>pos - begin()\<close> and \<^verbatim>\<open>end() - pos\<close> are defined for a
  \<open>pos\<close> that points into \<open>[begin(), end()]\<close> of this array; any other \<open>pos\<close> is \<open>UB\<close>.
\<close>

definition Emplace ::
  "'a elem_type \<Rightarrow> 'a store \<Rightarrow> vref \<Rightarrow> ptr \<Rightarrow> ('b \<Rightarrow> 'a option) \<Rightarrow> 'b \<Rightarrow> 'a error + ('a store \<times> ptr)" where
  "Emplace T s this pos ctor args =
     (if fst pos = fst (Vector_begin s this) \<and> snd pos \<le> snd (Vector_end s this) then
        let distance = snd pos - snd (Vector_begin s this) in
        bnd (if Size s this = Capacity s this then
               (let (s1, relocated_v) = RawMemory_ctor s (if Size s this = 0 then 1 else Size s this * 2) in
                bnd (RawMemory_plus relocated_v distance) (\<lambda>p.
                case ctor args of
                  None \<Rightarrow> bnd (RawMemory_dtor s1 relocated_v) (\<lambda>s'. Inl (Exception s'))
                | Some x \<Rightarrow>
                bnd (construct_at s1 p (Val x)) (\<lambda>s2.
                bnd (relocate T s2 (GetAddress s2 this, 0) distance (m_buffer relocated_v, 0)) (\<lambda>s3.
                bnd (relocate T s3 (GetAddress s3 this, distance) (snd (Vector_end s3 this) - snd pos)
                       (m_buffer relocated_v, distance + 1)) (\<lambda>s4.
                let (d, relocated_v') = RawMemory_Swap (m_data (vecs s4 this)) relocated_v;
                    s5 = set_data s4 this d
                in
                bnd (destroy_n s5 (m_buffer relocated_v', 0) (m_capacity relocated_v')) (\<lambda>s6.
                RawMemory_dtor s6 relocated_v'))))))
             else if Size s this \<noteq> 0 then
               (case ctor args of
                  None \<Rightarrow> Inl (Exception s)
                | Some tmp_var \<Rightarrow>
                bnd (load s (GetAddress s this, Size s this - 1)) (\<lambda>c.
                bnd (construct_at s (Vector_end s this) c) (\<lambda>s1.
                bnd (move_backward s1 (GetAddress s1 this, distance) (GetAddress s1 this, Size s1 this - 1)
                       (Vector_end s1 this)) (\<lambda>s2.
                bnd (RawMemory_index (m_data (vecs s2 this)) distance) (\<lambda>p.
                assign_at s2 p (Val tmp_var))))))
             else
               (case ctor args of
                  None \<Rightarrow> Inl (Exception s)
                | Some x \<Rightarrow> construct_at s (GetAddress s this, 0) (Val x)))
          (\<lambda>s'.
             let s'' = set_size s' this (Size s' this + 1) in
             Inr (s'', (GetAddress s'' this, distance)))
      else Inl UB)"

definition Insert_copy :: "'a elem_type \<Rightarrow> 'a store \<Rightarrow> vref \<Rightarrow> ptr \<Rightarrow> 'a \<Rightarrow> 'a error + ('a store \<times> ptr)" where
  "Insert_copy T s this pos v = Emplace T s this pos Some v"

definition Insert_move :: "'a elem_type \<Rightarrow> 'a store \<Rightarrow> vref \<Rightarrow> ptr \<Rightarrow> 'a \<Rightarrow> 'a error + ('a store \<times> ptr)" where
  "Insert_move T s this pos v = Emplace T s this pos Some v"

text \<open>
  The loop of \<^verbatim>\<open>Erase\<close>, \<^verbatim>\<open>while (it2 != end())\<close>. It stops when \<open>it2\<close> meets
  \<open>end()\<close>, or with \<open>UB\<close> when \<open>it2\<close> leaves the objects of the block.
\<close>

function Erase_loop :: "'a store \<Rightarrow> addr \<Rightarrow> nat \<Rightarrow> nat \<Rightarrow> nat \<Rightarrow> 'a error + 'a store" where
  "Erase_loop s b it1 it2 e =
     (if it2 \<noteq> e then
        (case load s (b, it2) of
           Inl err \<Rightarrow> Inl err
         | Inr c \<Rightarrow>
            (case assign_at s (b, it1) c of
               Inl err \<Rightarrow> Inl err
             | Inr s' \<Rightarrow> Erase_loop s' b (Suc it1) (Suc it2) e))
      else Inr s)"
  by pat_completeness auto
termination
proof (relation "measure (\<lambda>(s, b, it1, it2, e).
         (case blocks s b of None \<Rightarrow> 0 | Some cs \<Rightarrow> length cs) - it2)")
  show "wf (measure (\<lambda>(s, b, it1, it2, e).
         (case blocks s b of None \<Rightarrow> 0 | Some cs \<Rightarrow> length cs) - it2))"
    by simp
next
  fix s s' :: "'a store" and b it1 it2 e :: nat and c :: "'a cell"
  assume "load s (b, it2) = Inr c" and "assign_at s (b, it1) c = Inr s'"
  then show "((s', b, Suc it1, Suc it2, e), (s, b, it1, it2, e))
      \<in> measure (\<lambda>(s, b, it1, it2, e).
         (case blocks s b of None \<Rightarrow> 0 | Some cs \<Rightarrow> length cs) - it2)"
    by (auto simp: load_def assign_at_def put_def split: option.splits if_splits)
qed

definition Erase :: "'a store \<Rightarrow> vref \<Rightarrow> ptr \<Rightarrow> 'a error + ('a store \<times> ptr)" where
  "Erase s this pos =
     bnd (destroy_at s pos) (\<lambda>s1.
     if fst pos = fst (Vector_begin s1 this) then
       let distance = snd pos - snd (Vector_begin s1 this) in
       bnd (Erase_loop s1 (GetAddress s1 this) distance (distance + 1) (snd (Vector_end s1 this))) (\<lambda>s2.
       let s3 = set_size s2 this (size_t_dec (Size s2 this)) in
       Inr (s3, (GetAddress s3 this, distance)))
     else Inl UB)"

subsection \<open>Assignment\<close>

text \<open>The two loops of \<^verbatim>\<open>operator=(const Vector&)\<close>: through raw pointers, and through \<^verbatim>\<open>RawMemory::operator[]\<close>.\<close>

function assign_loop_ptr :: "'a store \<Rightarrow> addr \<Rightarrow> addr \<Rightarrow> nat \<Rightarrow> nat \<Rightarrow> 'a error + 'a store" where
  "assign_loop_ptr s dst src i n =
     (if i < n then
        (case load s (src, i) of
           Inl err \<Rightarrow> Inl err
         | Inr c \<Rightarrow>
            (case assign_at s (dst, i) c of
               Inl err \<Rightarrow> Inl err
             | Inr s' \<Rightarrow> assign_loop_ptr s' dst src (Suc i) n))
      else Inr s)"
  by pat_completeness auto
termination
  by (relation "measure (\<lambda>(s, dst, src, i, n). n - i)") auto

function assign_loop_index :: "'a store \<Rightarrow> RawMemory \<Rightarrow> RawMemory \<Rightarrow> nat \<Rightarrow> nat \<Rightarrow> 'a error + 'a store" where
  "assign_loop_index s dst src i n =
     (if i < n then
        (case RawMemory_index src i of
           Inl err \<Rightarrow> Inl err
         | Inr q \<Rightarrow>
        (case load s q of
           Inl err \<Rightarrow> Inl err
         | Inr c \<Rightarrow>
        (case RawMemory_index dst i of
           Inl err \<Rightarrow> Inl err
         | Inr p \<Rightarrow>
        (case assign_at s p c of
           Inl err \<Rightarrow> Inl err
         | Inr s' \<Rightarrow> assign_loop_index s' dst src (Suc i) n))))
      else Inr s)"
  by pat_completeness auto
termination
  by (relation "measure (\<lambda>(s, dst, src, i, n). n - i)") auto

definition copy_assign :: "'a store \<Rightarrow> vref \<Rightarrow> vref \<Rightarrow> 'a error + 'a store" where
  "copy_assign s this rhs =
     (if this \<noteq> rhs then
        (if Size s rhs > Capacity s this then
           bnd (Vector_copy_local s rhs) (\<lambda>(s1, rhs_copy).
           let (d, d') = RawMemory_Swap (m_data (vecs s1 this)) (m_data rhs_copy);
               n = Size s1 this;
               s2 = set_size (set_data s1 this d) this (m_size rhs_copy);
               rhs_copy' = \<lparr>m_data = d', m_size = n\<rparr>
           in Vector_dtor_local s2 rhs_copy')
         else
           bnd (if Size s this > Size s rhs then
                  bnd (assign_loop_ptr s (GetAddress s this) (GetAddress s rhs) 0 (Size s rhs)) (\<lambda>s1.
                  destroy_n s1 (GetAddress s1 this, Size s1 rhs) (Size s1 this - Size s1 rhs))
                else
                  bnd (assign_loop_index s (m_data (vecs s this)) (m_data (vecs s rhs)) 0 (Size s this)) (\<lambda>s1.
                  if Size s1 rhs > Size s1 this
                  then uninitialized_copy_n s1 (GetAddress s1 rhs, Size s1 this)
                         (Size s1 rhs - Size s1 this) (GetAddress s1 this, Size s1 this)
                  else Inr s1))
             (\<lambda>s'. Inr (set_size s' this (Size s' rhs))))
      else Inr s)"

text \<open>
  \<^verbatim>\<open>operator=(Vector&&)\<close>. Each statement reads and writes the objects through the
  store, so the definition also covers \<open>this = rhs\<close>.
\<close>

definition move_assign :: "'a store \<Rightarrow> vref \<Rightarrow> vref \<Rightarrow> 'a store" where
  "move_assign s this rhs =
     (if GetAddress s this \<noteq> GetAddress s rhs then
        let (d, d') = RawMemory_move_assign (m_data (vecs s this)) (m_data (vecs s rhs));
            s1 = set_data (set_data s rhs d') this d;
            s2 = set_size s1 this (Size s1 rhs)
        in set_size s2 rhs 0
      else s)"

section \<open>Sequences of appends\<close>

datatype 'a append = ByPushBackCopy 'a | ByPushBackMove 'a | ByPushBack 'a | ByEmplaceBack 'a

fun append_value :: "'a append \<Rightarrow> 'a" where
  "append_value (ByPushBackCopy v) = v"
| "append_value (ByPushBackMove v) = v"
| "append_value (ByPushBack v) = v"
| "append_value (ByEmplaceBack v) = v"

fun do_append :: "'a elem_type \<Rightarrow> 'a store \<Rightarrow> vref \<Rightarrow> 'a append \<Rightarrow> 'a error + 'a store" where
  "do_append T s this (ByPushBackCopy v) = PushBack_copy T s this v"
| "do_append T s this (ByPushBackMove v) = PushBack_move T s this v"
| "do_append T s this (ByPushBack v) = PushBack T s this Some v"
| "do_append T s this (ByEmplaceBack v) = bnd (EmplaceBack T s this Some v) (\<lambda>(s', _). Inr s')"

fun appends :: "'a elem_type \<Rightarrow> 'a store \<Rightarrow> vref \<Rightarrow> 'a append list \<Rightarrow> 'a error + 'a store" where
  "appends T s this [] = Inr s"
| "appends T s this (a # as) = bnd (do_append T s this a) (\<lambda>s'. appends T s' this as)"

section \<open>Well-formed states\<close>

text \<open>
  \<open>heap_ok\<close>: nothing is allocated at \<^verbatim>\<open>nullptr\<close> or above the allocator's mark.
  \<open>wf_vector\<close>: the representation invariant of one array: \<open>size \<le> capacity\<close>, the
  buffer is a block of \<open>capacity\<close> cells (or \<^verbatim>\<open>nullptr\<close> with capacity 0), and the
  first \<open>size\<close> cells hold objects. \<open>elems\<close> are those cells.
\<close>

definition heap_ok :: "'a store \<Rightarrow> bool" where
  "heap_ok s \<longleftrightarrow> blocks s 0 = None \<and> (\<forall>a. brk s < a \<longrightarrow> blocks s a = None)"

definition cells :: "'a store \<Rightarrow> vref \<Rightarrow> 'a cell list" where
  "cells s this = (case blocks s (GetAddress s this) of None \<Rightarrow> [] | Some cs \<Rightarrow> cs)"

definition elems :: "'a store \<Rightarrow> vref \<Rightarrow> 'a cell list" where
  "elems s this = take (Size s this) (cells s this)"

definition wf_vector :: "'a store \<Rightarrow> vref \<Rightarrow> bool" where
  "wf_vector s this \<longleftrightarrow>
     heap_ok s \<and> Size s this \<le> Capacity s this \<and>
     (case blocks s (GetAddress s this) of
        None \<Rightarrow> GetAddress s this = 0 \<and> Capacity s this = 0
      | Some cs \<Rightarrow> length cs = Capacity s this) \<and>
     Raw \<notin> set (elems s this)"

text \<open>A scalar element type (\<^verbatim>\<open>int\<close>), and the store before any object is constructed.\<close>

definition int_T :: "int elem_type" where
  "int_T = \<lparr>default_init = None, value_init = 0,
            nothrow_move_constructible = True, copy_constructible = True\<rparr>"

definition empty_store :: "'a store" where
  "empty_store = \<lparr>vecs = (\<lambda>_. Vector_default), blocks = (\<lambda>_. None), brk = 0\<rparr>"

text \<open>
  A store with two arrays: array 0 holds \<open>[1]\<close> in a buffer of capacity 4, array 1
  holds \<open>[7, 8, 9]\<close> in a buffer of capacity 3.
\<close>

definition two_vectors :: "int store" where
  "two_vectors =
     \<lparr>vecs = (\<lambda>_. Vector_default)
        (0 := \<lparr>m_data = \<lparr>m_buffer = 1, m_capacity = 4\<rparr>, m_size = 1\<rparr>,
         1 := \<lparr>m_data = \<lparr>m_buffer = 2, m_capacity = 3\<rparr>, m_size = 3\<rparr>),
      blocks = (\<lambda>_. None)(1 \<mapsto> [Val 1, Raw, Raw, Raw], 2 \<mapsto> [Val 7, Val 8, Val 9]),
      brk = 2\<rparr>"

text \<open>
  A store in which array 0 records one element in a full buffer of capacity 1 whose
  slot holds no object, so that reading or relocating that element is undefined. The
  class does not reach such a store; an operation run on it shows whether it has
  touched an existing element by the time it fails.
\<close>

definition unreadable_element :: "int store" where
  "unreadable_element =
     \<lparr>vecs = (\<lambda>_. Vector_default)
        (0 := \<lparr>m_data = \<lparr>m_buffer = 1, m_capacity = 1\<rparr>, m_size = 1\<rparr>),
      blocks = (\<lambda>_. None)(1 \<mapsto> [Raw]),
      brk = 1\<rparr>"

text \<open>The cell that default-initialisation \<^verbatim>\<open>new (p) T;\<close> leaves.\<close>

definition default_cell :: "'a elem_type \<Rightarrow> 'a cell" where
  "default_cell T = (case default_init T of None \<Rightarrow> Indet | Some d \<Rightarrow> Val d)"

section \<open>The invariant\<close>

text \<open>
  \<open>rep_ok\<close>: the invariant \<open>size \<le> capacity\<close> of one array, together with what ties
  the address to the capacity (a null buffer has capacity 0). \<open>all_ok\<close>: every array
  of the store satisfies it. \<open>leaves P r\<close>: the outcome \<open>r\<close> of an operation, a
  return or an exception, ends in a store that satisfies \<open>P\<close>; nothing is said of
  an outcome that is a failed assertion or undefined behaviour.
\<close>

definition rep_ok :: "'a store \<Rightarrow> vref \<Rightarrow> bool" where
  "rep_ok s r \<longleftrightarrow> Size s r \<le> Capacity s r \<and> (GetAddress s r = 0 \<longrightarrow> Capacity s r = 0)"

definition all_ok :: "'a store \<Rightarrow> bool" where
  "all_ok s \<longleftrightarrow> (\<forall>r. rep_ok s r)"

definition leaves :: "('a store \<Rightarrow> bool) \<Rightarrow> 'a error + 'a store \<Rightarrow> bool" where
  "leaves P r = (case r of Inr s' \<Rightarrow> P s' | Inl (Exception s') \<Rightarrow> P s' | Inl _ \<Rightarrow> True)"

definition dropping_result :: "'a error + ('a store \<times> 'r) \<Rightarrow> 'a error + 'a store" where
  "dropping_result r = bnd r (\<lambda>(s', _). Inr s')"

text \<open>
  Proof devices: \<open>keeps_vecs s r\<close> says that \<open>r\<close> is not an exception and, when it
  returns, leaves the fields of every array as they are in \<open>s\<close>; \<open>post Q E r\<close> is
  \<open>leaves\<close> with one condition for a return and one for an exception.
\<close>

definition keeps_vecs :: "'a store \<Rightarrow> 'a error + 'a store \<Rightarrow> bool" where
  "keeps_vecs s r = (case r of Inr s' \<Rightarrow> vecs s' = vecs s | Inl (Exception _) \<Rightarrow> False | Inl _ \<Rightarrow> True)"

definition post :: "('x \<Rightarrow> bool) \<Rightarrow> ('a store \<Rightarrow> bool) \<Rightarrow> 'a error + 'x \<Rightarrow> bool" where
  "post Q E r = (case r of Inr x \<Rightarrow> Q x | Inl (Exception s') \<Rightarrow> E s' | Inl _ \<Rightarrow> True)"

section \<open>Lemmas on the memory primitives\<close>

lemma bnd_Inr [simp]: "bnd (Inr x) f = f x"
  by (simp add: bnd_def)

lemma bnd_Inl [simp]: "bnd (Inl e) f = Inl e"
  by (simp add: bnd_def)

lemma bnd_eq_Inr: "bnd m f = Inr y \<longleftrightarrow> (\<exists>x. m = Inr x \<and> f x = Inr y)"
  by (cases m) simp_all

lemma load_block:
  "blocks s a = Some cs \<Longrightarrow> i < length cs \<Longrightarrow> cs ! i \<noteq> Raw \<Longrightarrow> load s (a, i) = Inr (cs ! i)"
  by (simp add: load_def)

lemma put_block:
  "blocks s a = Some cs \<Longrightarrow> i < length cs \<Longrightarrow>
   put s (a, i) c = Inr (s\<lparr>blocks := (blocks s)(a \<mapsto> cs[i := c])\<rparr>)"
  by (simp add: put_def)

lemma destroy_at_block:
  "blocks s a = Some cs \<Longrightarrow> i < length cs \<Longrightarrow> cs ! i \<noteq> Raw \<Longrightarrow>
   destroy_at s (a, i) = Inr (s\<lparr>blocks := (blocks s)(a \<mapsto> cs[i := Raw])\<rparr>)"
  by (simp add: destroy_at_def load_block put_block)

lemma uninitialized_copy_n_blocks:
  "blocks s a = Some cs \<Longrightarrow> blocks s b = Some ds \<Longrightarrow> a \<noteq> b \<Longrightarrow>
   i + n \<le> length cs \<Longrightarrow> j + n \<le> length ds \<Longrightarrow> (\<forall>k<n. cs ! (i + k) \<noteq> Raw) \<Longrightarrow>
   uninitialized_copy_n s (a, i) n (b, j) =
     Inr (s\<lparr>blocks := (blocks s)(b \<mapsto> take j ds @ take n (drop i cs) @ drop (j + n) ds)\<rparr>)"
proof (induction n arbitrary: s i j ds)
  case 0
  then have "(blocks s)(b \<mapsto> ds) = blocks s"
    by (simp add: fun_upd_idem)
  then show ?case by simp
next
  case (Suc n)
  let ?c = "cs ! i"
  let ?s1 = "s\<lparr>blocks := (blocks s)(b \<mapsto> ds[j := ?c])\<rparr>"
  from Suc.prems have live: "cs ! i \<noteq> Raw"
    by (metis add.right_neutral zero_less_Suc)
  have ld: "load s (a, i) = Inr ?c"
    using Suc.prems live by (simp add: load_block)
  have pt: "construct_at s (b, j) ?c = Inr ?s1"
    using Suc.prems by (simp add: construct_at_def put_block)
  have rest: "uninitialized_copy_n ?s1 (a, Suc i) n (b, Suc j) =
      Inr (?s1\<lparr>blocks := (blocks ?s1)(b \<mapsto>
        take (Suc j) (ds[j := ?c]) @ take n (drop (Suc i) cs) @ drop (Suc j + n) (ds[j := ?c]))\<rparr>)"
  proof (rule Suc.IH)
    show "\<forall>k<n. cs ! (Suc i + k) \<noteq> Raw"
      using Suc.prems(6) by (metis Suc_less_eq add_Suc_right add_Suc)
  qed (use Suc.prems in simp_all)
  have l1: "take (Suc j) (ds[j := ?c]) = take j ds @ [?c]"
    using Suc.prems by (simp add: take_Suc_conv_app_nth)
  have l2: "take (Suc n) (drop i cs) = ?c # take n (drop (Suc i) cs)"
    using Suc.prems by (simp add: take_Suc_conv_app_nth Cons_nth_drop_Suc[symmetric])
  show ?case
    using ld pt rest l1 l2 by (simp, intro store.equality) (simp_all add: fun_upd_def)
qed

lemma destroy_n_blocks:
  "blocks s a = Some cs \<Longrightarrow> i + n \<le> length cs \<Longrightarrow> (\<forall>k<n. cs ! (i + k) \<noteq> Raw) \<Longrightarrow>
   destroy_n s (a, i) n =
     Inr (s\<lparr>blocks := (blocks s)(a \<mapsto> take i cs @ replicate n Raw @ drop (i + n) cs)\<rparr>)"
proof (induction n arbitrary: s i cs)
  case 0
  then have "(blocks s)(a \<mapsto> cs) = blocks s"
    by (simp add: fun_upd_idem)
  then show ?case by simp
next
  case (Suc n)
  let ?s1 = "s\<lparr>blocks := (blocks s)(a \<mapsto> cs[i := Raw])\<rparr>"
  from Suc.prems have live: "cs ! i \<noteq> Raw"
    by (metis add.right_neutral zero_less_Suc)
  have d: "destroy_at s (a, i) = Inr ?s1"
    using Suc.prems live by (simp add: destroy_at_block)
  have rest: "destroy_n ?s1 (a, Suc i) n =
      Inr (?s1\<lparr>blocks := (blocks ?s1)(a \<mapsto>
        take (Suc i) (cs[i := Raw]) @ replicate n Raw @ drop (Suc i + n) (cs[i := Raw]))\<rparr>)"
  proof (rule Suc.IH)
    show "\<forall>k<n. cs[i := Raw] ! (Suc i + k) \<noteq> Raw"
      using Suc.prems(3) by (metis Suc_less_eq add_Suc_right add_Suc nth_list_update_neq n_not_Suc_n le_add1 not_less_eq_eq)
  qed (use Suc.prems in simp_all)
  have l1: "take (Suc i) (cs[i := Raw]) = take i cs @ [Raw]"
    using Suc.prems by (simp add: take_Suc_conv_app_nth)
  show ?case
    using d rest l1 by (simp, intro store.equality) (simp_all add: fun_upd_def)
qed

lemma uninitialized_default_construct_n_blocks:
  "blocks s a = Some cs \<Longrightarrow> i + n \<le> length cs \<Longrightarrow>
   uninitialized_default_construct_n T s (a, i) n =
     Inr (s\<lparr>blocks := (blocks s)(a \<mapsto> take i cs @
            replicate n (case default_init T of None \<Rightarrow> Indet | Some d \<Rightarrow> Val d) @ drop (i + n) cs)\<rparr>)"
proof (induction n arbitrary: s i cs)
  case 0
  then have "(blocks s)(a \<mapsto> cs) = blocks s"
    by (simp add: fun_upd_idem)
  then show ?case by simp
next
  case (Suc n)
  let ?c = "case default_init T of None \<Rightarrow> Indet | Some d \<Rightarrow> Val d"
  let ?s1 = "s\<lparr>blocks := (blocks s)(a \<mapsto> cs[i := ?c])\<rparr>"
  have d: "construct_at s (a, i) ?c = Inr ?s1"
    using Suc.prems by (simp add: construct_at_def put_block)
  have rest: "uninitialized_default_construct_n T ?s1 (a, Suc i) n =
      Inr (?s1\<lparr>blocks := (blocks ?s1)(a \<mapsto>
        take (Suc i) (cs[i := ?c]) @ replicate n ?c @ drop (Suc i + n) (cs[i := ?c]))\<rparr>)"
    by (rule Suc.IH) (use Suc.prems in simp_all)
  have l1: "take (Suc i) (cs[i := ?c]) = take i cs @ [?c]"
    using Suc.prems by (simp add: take_Suc_conv_app_nth)
  show ?case
    using d rest l1 by (simp add: replicate_app_Cons_same, intro store.equality) (simp_all add: fun_upd_def)
qed

lemma heap_ok_addr:
  "heap_ok s \<Longrightarrow> blocks s a = Some cs \<Longrightarrow> a \<noteq> 0 \<and> a \<le> brk s"
  unfolding heap_ok_def by (metis not_le_imp_less option.distinct(1))

lemma PushBack_in_place:
  assumes wf: "wf_vector s this" and ne: "Size s this \<noteq> Capacity s this" and c: "ctor v = Some x"
  shows "\<exists>s'. PushBack T s this ctor v = Inr s' \<and> wf_vector s' this \<and>
           elems s' this = elems s this @ [Val x] \<and> Size s' this = Size s this + 1 \<and>
           Capacity s' this = Capacity s this \<and> GetAddress s' this = GetAddress s this"
proof -
  from wf ne have lt: "Size s this < Capacity s this"
    by (simp add: wf_vector_def)
  with wf obtain cs where cs: "blocks s (GetAddress s this) = Some cs" "length cs = Capacity s this"
    by (auto simp: wf_vector_def split: option.splits)
  let ?s1 = "s\<lparr>blocks := (blocks s)(GetAddress s this \<mapsto> cs[Size s this := Val x])\<rparr>"
  let ?s' = "set_size ?s1 this (Size s this + 1)"
  have run: "PushBack T s this ctor v = Inr ?s'"
    using lt cs c ne
    by (simp add: PushBack_def RawMemory_plus_def construct_at_def put_def
        Size_def Capacity_def GetAddress_def)
  have live: "Raw \<notin> set (take (Size s this) cs)"
    using wf cs by (simp add: wf_vector_def elems_def cells_def)
  have "wf_vector ?s' this"
    using wf cs lt live heap_ok_addr[of s "GetAddress s this" cs]
    by (auto simp: wf_vector_def heap_ok_def elems_def cells_def set_size_def set_vec_def
        Size_def Capacity_def GetAddress_def take_Suc_conv_app_nth)
  moreover have "elems ?s' this = elems s this @ [Val x]"
    using cs lt
    by (simp add: elems_def cells_def set_size_def set_vec_def Size_def Capacity_def
        GetAddress_def take_Suc_conv_app_nth)
  ultimately show ?thesis
    using run by (simp add: set_size_def set_vec_def Size_def Capacity_def GetAddress_def)
qed

lemma live_nth: "Raw \<notin> set (take n (drop i cs)) \<Longrightarrow> i + n \<le> length cs \<Longrightarrow> \<forall>k<n. cs ! (i + k) \<noteq> Raw"
  by (metis (no_types, lifting) add_leD1 in_set_conv_nth length_drop length_take min.absorb2 nth_drop nth_take
      le_add_diff_inverse add_le_cancel_left)

lemma uninitialized_copy_n_the:
  assumes "blocks s a \<noteq> None" "blocks s b \<noteq> None" "a \<noteq> b"
    "i + n \<le> length (the (blocks s a))" "j + n \<le> length (the (blocks s b))"
    "Raw \<notin> set (take n (drop i (the (blocks s a))))"
  shows "uninitialized_copy_n s (a, i) n (b, j) =
     Inr (s\<lparr>blocks := (blocks s)(b \<mapsto> take j (the (blocks s b)) @
            take n (drop i (the (blocks s a))) @ drop (j + n) (the (blocks s b)))\<rparr>)"
  using assms live_nth[OF assms(6) assms(4)]
  by (intro uninitialized_copy_n_blocks) auto

lemma destroy_n_the:
  assumes "blocks s a \<noteq> None" "i + n \<le> length (the (blocks s a))"
    "Raw \<notin> set (take n (drop i (the (blocks s a))))"
  shows "destroy_n s (a, i) n =
     Inr (s\<lparr>blocks := (blocks s)(a \<mapsto> take i (the (blocks s a)) @ replicate n Raw @
            drop (i + n) (the (blocks s a)))\<rparr>)"
  using assms live_nth[OF assms(3) assms(2)]
  by (intro destroy_n_blocks) auto

lemma relocate_eq: "relocate T s first n d_first = uninitialized_copy_n s first n d_first"
  by (simp add: relocate_def uninitialized_move_n_def)

lemma drop_update_same: "n < length xs \<Longrightarrow> drop n (xs[n := y]) = y # drop (Suc n) xs"
  by (metis Cons_nth_drop_Suc drop_update_cancel length_list_update lessI nth_list_update_eq)

lemma PushBack_grow:
  assumes wf: "wf_vector s this" and eq: "Size s this = Capacity s this" and c: "ctor v = Some x"
  shows "\<exists>s'. PushBack T s this ctor v = Inr s' \<and> wf_vector s' this \<and>
           elems s' this = elems s this @ [Val x] \<and> Size s' this = Size s this + 1 \<and>
           Capacity s' this = max 1 (2 * Capacity s this)"
proof (cases "blocks s (GetAddress s this)")
  case None
  with wf eq have z: "GetAddress s this = 0" "Capacity s this = 0" "Size s this = 0"
    by (auto simp: wf_vector_def)
  show ?thesis
    using wf z c
    by (auto simp: PushBack_def RawMemory_ctor_def Allocate_def RawMemory_plus_def
        construct_at_def put_def relocate_eq RawMemory_Swap_def
        RawMemory_dtor_def Deallocate_def set_data_def set_size_def set_vec_def
        Size_def Capacity_def GetAddress_def wf_vector_def heap_ok_def elems_def cells_def)
next
  case (Some cs)
  with wf eq have len: "length cs = Size s this" and live: "Raw \<notin> set cs"
    by (auto simp: wf_vector_def elems_def cells_def)
  from wf Some have addr: "GetAddress s this \<noteq> 0" "GetAddress s this \<le> brk s"
    using heap_ok_addr[of s "GetAddress s this" cs] by (auto simp: wf_vector_def)
  from wf have fresh: "blocks s (Suc (brk s)) = None"
    by (simp add: wf_vector_def heap_ok_def)
  show ?thesis
    using wf c Some len live addr fresh eq
    by (auto simp: PushBack_def RawMemory_ctor_def Allocate_def RawMemory_plus_def
        construct_at_def put_def relocate_eq RawMemory_Swap_def
        RawMemory_dtor_def Deallocate_def set_data_def set_size_def set_vec_def
        Size_def Capacity_def GetAddress_def wf_vector_def heap_ok_def elems_def cells_def
        uninitialized_copy_n_the destroy_n_the drop_update_same)
qed

section \<open>Appending\<close>

lemma PushBack_ok:
  assumes "wf_vector s this" and "ctor v = Some x"
  shows "\<exists>s'. PushBack T s this ctor v = Inr s' \<and> wf_vector s' this \<and>
           elems s' this = elems s this @ [Val x] \<and> Size s' this = Size s this + 1 \<and>
           Capacity s' this =
             (if Size s this = Capacity s this then max 1 (2 * Capacity s this) else Capacity s this)"
proof (cases "Size s this = Capacity s this")
  case True
  then show ?thesis
    using PushBack_grow[where T=T and ctor=ctor and v=v and x=x, OF assms(1) True assms(2)] by auto
next
  case False
  then show ?thesis
    using PushBack_in_place[where T=T and ctor=ctor and v=v and x=x, OF assms(1) False assms(2)] by auto
qed

lemma EmplaceBack_PushBack:
  "EmplaceBack T s this ctor args =
     bnd (PushBack T s this ctor args) (\<lambda>s''.
     bnd (RawMemory_index (m_data (vecs s'' this)) (Size s'' this - 1)) (\<lambda>p. Inr (s'', p)))"
  by (simp add: EmplaceBack_def PushBack_def bnd_def Let_def split: sum.splits)

lemma EmplaceBack_ok:
  fixes s :: "'a store"
  assumes "wf_vector s this" and "ctor args = Some x"
  shows "\<exists>s' p. EmplaceBack T s this ctor args = Inr (s', p) \<and> wf_vector s' this \<and>
           elems s' this = elems s this @ [Val x] \<and> Size s' this = Size s this + 1 \<and>
           Capacity s' this =
             (if Size s this = Capacity s this then max 1 (2 * Capacity s this) else Capacity s this) \<and>
           p = (GetAddress s' this, Size s this)"
proof -
  from PushBack_ok[where T=T and ctor=ctor and v=args and x=x, OF assms] obtain s' where
    s': "PushBack T s this ctor args = Inr s'" "wf_vector s' this"
      "elems s' this = elems s this @ [Val x]" "Size s' this = Size s this + 1"
      "Capacity s' this =
         (if Size s this = Capacity s this then max 1 (2 * Capacity s this) else Capacity s this)"
    by blast
  from s'(2,4) have "Size s' this - 1 < Capacity s' this"
    by (simp add: wf_vector_def)
  then have "(RawMemory_index (m_data (vecs s' this)) (Size s' this - 1) :: 'a error + ptr) =
      Inr (GetAddress s' this, Size s this)"
    using s'(4) by (simp add: RawMemory_index_def Capacity_def GetAddress_def)
  then have "EmplaceBack T s this ctor args = Inr (s', (GetAddress s' this, Size s this))"
    using s'(1) by (simp add: EmplaceBack_PushBack)
  with s'(2-5) show ?thesis
    by blast
qed

lemma do_append_ok:
  assumes "wf_vector s this"
  shows "\<exists>s'. do_append T s this a = Inr s' \<and> wf_vector s' this \<and>
           elems s' this = elems s this @ [Val (append_value a)] \<and>
           Size s' this = Size s this + 1 \<and>
           Capacity s' this =
             (if Size s this = Capacity s this then max 1 (2 * Capacity s this) else Capacity s this)"
proof (cases a)
  case (ByPushBack v)
  then show ?thesis using PushBack_ok[where T=T and ctor=Some and v=v and x=v, OF assms] by simp
next
  case (ByPushBackCopy v)
  then show ?thesis
    using EmplaceBack_ok[where T=T and ctor=Some and args=v and x=v, OF assms] by (auto simp: PushBack_copy_def)
next
  case (ByPushBackMove v)
  then show ?thesis
    using EmplaceBack_ok[where T=T and ctor=Some and args=v and x=v, OF assms] by (auto simp: PushBack_move_def)
next
  case (ByEmplaceBack v)
  then show ?thesis
    using EmplaceBack_ok[where T=T and ctor=Some and args=v and x=v, OF assms] by auto
qed

lemma appends_ok:
  "wf_vector s this \<Longrightarrow>
   \<exists>s'. appends T s this as = Inr s' \<and> wf_vector s' this \<and>
        elems s' this = elems s this @ map (\<lambda>a. Val (append_value a)) as \<and>
        Size s' this = Size s this + length as"
proof (induction as arbitrary: s)
  case Nil
  then show ?case by simp
next
  case (Cons a as)
  from do_append_ok[OF Cons.prems, of T a] obtain s1 where
    s1: "do_append T s this a = Inr s1" "wf_vector s1 this"
      "elems s1 this = elems s this @ [Val (append_value a)]" "Size s1 this = Size s this + 1"
    by blast
  from Cons.IH[OF s1(2)] obtain s' where
    "appends T s1 this as = Inr s'" "wf_vector s' this"
    "elems s' this = elems s1 this @ map (\<lambda>a. Val (append_value a)) as"
    "Size s' this = Size s1 this + length as"
    by blast
  with s1 show ?case by simp
qed

lemma appends_snoc:
  "appends T s this (as @ [a]) = bnd (appends T s this as) (\<lambda>s'. do_append T s' this a)"
  by (induction as arbitrary: s) (simp_all add: bnd_def split: sum.splits)

lemma at_elems:
  fixes s :: "'a store"
  assumes "wf_vector s this" and "i < Size s this"
  shows "at s this i = Inr (elems s this ! i)"
proof -
  from assms have cap: "i < Capacity s this"
    by (simp add: wf_vector_def)
  with assms obtain cs where cs: "blocks s (GetAddress s this) = Some cs" "length cs = Capacity s this"
    by (auto simp: wf_vector_def split: option.splits)
  have el: "elems s this = take (Size s this) cs"
    using cs by (simp add: elems_def cells_def)
  from assms(1) have "Raw \<notin> set (elems s this)"
    by (simp add: wf_vector_def)
  moreover have "elems s this ! i \<in> set (elems s this)"
    using assms(2) cap cs el by (intro nth_mem) simp
  ultimately have live: "cs ! i \<noteq> Raw"
    using el assms(2) by auto
  have "(Vector_index s this i :: 'a error + ptr) = Inr (GetAddress s this, i)"
    using assms(2) cap by (simp add: Vector_index_def RawMemory_index_def Capacity_def GetAddress_def)
  then show ?thesis
    using cs cap live el assms(2) by (simp add: at_def load_block)
qed

lemma wf_empty_store: "wf_vector empty_store this"
  by (simp add: wf_vector_def heap_ok_def elems_def cells_def empty_store_def Vector_default_def
      RawMemory_default_def Size_def Capacity_def GetAddress_def)

lemma Size_empty_store: "Size empty_store this = 0"
  by (simp add: empty_store_def Vector_default_def Size_def)

text \<open>
  C1. For every list of appends, each made by one of the \<^verbatim>\<open>PushBack\<close> overloads or by
  \<^verbatim>\<open>EmplaceBack\<close>, applied to an array that is empty at the start: the appends all
  return, \<^verbatim>\<open>Size()\<close> is then the number of appends, and \<^verbatim>\<open>operator[]\<close> at every
  \<open>i\<close> below it yields the \<open>i\<close>-th appended value.
\<close>

theorem append_sequence:
  assumes "wf_vector s this" and "Size s this = 0"
  shows "\<exists>s'. appends T s this as = Inr s' \<and> Size s' this = length as \<and>
           (\<forall>i<length as. at s' this i = Inr (Val (append_value (as ! i))))"
proof -
  from appends_ok[OF assms(1), of T as] obtain s' where
    s': "appends T s this as = Inr s'" "wf_vector s' this"
      "elems s' this = elems s this @ map (\<lambda>a. Val (append_value a)) as"
      "Size s' this = Size s this + length as"
    by blast
  from assms(2) have "elems s this = []"
    by (simp add: elems_def)
  with s' assms(2) have "elems s' this = map (\<lambda>a. Val (append_value a)) as" "Size s' this = length as"
    by simp_all
  then show ?thesis
    using s'(1,2) by (auto simp: at_elems)
qed

theorem append_sequence_witness:
  "wf_vector (empty_store :: int store) 0 \<and> Size (empty_store :: int store) 0 = 0 \<and>
   (\<exists>s'. appends int_T empty_store 0 [ByPushBackCopy 1, ByPushBack 2, ByEmplaceBack 3] = Inr s' \<and>
      Size s' 0 = 3 \<and> at s' 0 0 = Inr (Val 1) \<and> at s' 0 1 = Inr (Val 2) \<and> at s' 0 2 = Inr (Val 3))"
proof -
  have h1: "wf_vector (empty_store :: int store) 0"
    by (rule wf_empty_store)
  have h2: "Size (empty_store :: int store) 0 = 0"
    by (rule Size_empty_store)
  from append_sequence[OF h1 h2, of int_T "[ByPushBackCopy 1, ByPushBack 2, ByEmplaceBack 3]"]
  obtain s' where s': "appends int_T empty_store 0 [ByPushBackCopy 1, ByPushBack 2, ByEmplaceBack 3] = Inr s'"
    "Size s' 0 = 3"
    "\<forall>i<3. at s' 0 i = Inr (Val (append_value ([ByPushBackCopy 1, ByPushBack 2, ByEmplaceBack 3] ! i)))"
    by auto
  from s'(3) have "at s' 0 0 = Inr (Val 1)" "at s' 0 1 = Inr (Val 2)" "at s' 0 2 = Inr (Val 3)"
    by (auto dest: spec[of _ 0] spec[of _ 1] spec[of _ 2])
  with s'(1,2) h1 h2 show ?thesis
    by blast
qed

text \<open>The definitions that a run on a concrete store unfolds.\<close>

lemmas exec_defs = PushBack_def PushBack_copy_def PushBack_move_def EmplaceBack_def Emplace_def
  Insert_copy_def Insert_move_def Erase_def PopBack_def Reserve_def Resize_def
  RawMemory_ctor_def Allocate_def RawMemory_plus_def RawMemory_index_def RawMemory_dtor_def
  Deallocate_def RawMemory_Swap_def RawMemory_move_assign_def
  construct_at_def assign_at_def destroy_at_def put_def load_def relocate_eq
  set_data_def set_size_def set_vec_def Size_def Capacity_def GetAddress_def
  Vector_begin_def Vector_end_def move_backward_def size_t_dec_def
  empty_store_def Vector_default_def RawMemory_default_def int_T_def elems_def cells_def
  at_def Vector_index_def

text \<open>
  C4. Along any list of appends to a well-formed array, at every step \<open>k\<close>: the
  capacity does not decrease; it increases strictly exactly when the size after the
  append would exceed the capacity before it; and then the new capacity is
  \<open>max 1 (2 * previous capacity)\<close>.
\<close>

theorem capacity_growth:
  assumes "wf_vector s this" and "k < length as"
  shows "\<exists>s1 s2. appends T s this (take k as) = Inr s1 \<and> do_append T s1 this (as ! k) = Inr s2 \<and>
           appends T s this (take (Suc k) as) = Inr s2 \<and>
           Capacity s1 this \<le> Capacity s2 this \<and>
           (Capacity s1 this < Capacity s2 this \<longleftrightarrow> Capacity s1 this < Size s1 this + 1) \<and>
           (Capacity s1 this < Size s1 this + 1 \<longrightarrow> Capacity s2 this = max 1 (2 * Capacity s1 this))"
proof -
  from appends_ok[OF assms(1), of T "take k as"] obtain s1 where
    s1: "appends T s this (take k as) = Inr s1" "wf_vector s1 this"
    by blast
  from do_append_ok[OF s1(2), of T "as ! k"] obtain s2 where
    s2: "do_append T s1 this (as ! k) = Inr s2"
      "Capacity s2 this =
         (if Size s1 this = Capacity s1 this then max 1 (2 * Capacity s1 this) else Capacity s1 this)"
    by blast
  have "take (Suc k) as = take k as @ [as ! k]"
    using assms(2) by (simp add: take_Suc_conv_app_nth)
  then have run: "appends T s this (take (Suc k) as) = Inr s2"
    using s1(1) s2(1) by (simp add: appends_snoc)
  from s1(2) have le: "Size s1 this \<le> Capacity s1 this"
    by (simp add: wf_vector_def)
  have "Capacity s1 this \<le> Capacity s2 this"
    and "Capacity s1 this < Capacity s2 this \<longleftrightarrow> Capacity s1 this < Size s1 this + 1"
    and "Capacity s1 this < Size s1 this + 1 \<longrightarrow> Capacity s2 this = max 1 (2 * Capacity s1 this)"
    using le s2(2) by (auto split: if_splits)
  with s1(1) s2(1) run show ?thesis
    by blast
qed

theorem capacity_growth_witness:
  "wf_vector (empty_store :: int store) 0 \<and>
   (2 :: nat) < length [ByPushBackCopy (1 :: int), ByPushBack 2, ByEmplaceBack 3] \<and>
   (\<exists>s1 s2. appends int_T empty_store 0 [ByPushBackCopy 1, ByPushBack 2] = Inr s1 \<and>
      appends int_T empty_store 0 [ByPushBackCopy 1, ByPushBack 2, ByEmplaceBack 3] = Inr s2 \<and>
      Size s1 0 = 2 \<and> Capacity s1 0 = 2 \<and> Capacity s2 0 = 4)"
proof -
  have h1: "wf_vector (empty_store :: int store) 0"
    by (rule wf_empty_store)
  have h2: "(2 :: nat) < length [ByPushBackCopy (1 :: int), ByPushBack 2, ByEmplaceBack 3]"
    by simp
  from capacity_growth[OF h1 h2, of int_T] obtain s1 s2 where
    r1: "appends int_T empty_store 0 [ByPushBackCopy 1, ByPushBack 2] = Inr s1" and
    r2: "appends int_T empty_store 0 [ByPushBackCopy 1, ByPushBack 2, ByEmplaceBack 3] = Inr s2" and
    g: "Capacity s1 0 < Size s1 0 + 1 \<longrightarrow> Capacity s2 0 = max 1 (2 * Capacity s1 0)"
    by (auto simp: numeral_2_eq_2 numeral_3_eq_3)
  have "\<exists>s. appends int_T empty_store 0 [ByPushBackCopy 1, ByPushBack 2] = Inr s \<and>
          Size s 0 = 2 \<and> Capacity s 0 = 2"
    by (simp add: exec_defs eval_nat_numeral)
  with r1 have "Size s1 0 = 2" "Capacity s1 0 = 2"
    by auto
  with g have "Capacity s2 0 = 4"
    by simp
  with r1 r2 h1 h2 \<open>Size s1 0 = 2\<close> \<open>Capacity s1 0 = 2\<close> show ?thesis
    by blast
qed

lemma PushBack_throws:
  assumes "heap_ok s" and "Size s this = Capacity s this" and "ctor v = None"
  shows "\<exists>s'. PushBack T s this ctor v = Inl (Exception s') \<and>
           vecs s' = vecs s \<and> blocks s' = blocks s"
proof -
  from assms(1) have fresh: "blocks s (Suc (brk s)) = None"
    by (simp add: heap_ok_def)
  then have "(blocks s)(Suc (brk s) := None) = blocks s"
    by (simp add: fun_upd_idem)
  then show ?thesis
    using assms(2,3)
    by (simp add: PushBack_def RawMemory_ctor_def Allocate_def RawMemory_plus_def
        RawMemory_dtor_def Deallocate_def Size_def Capacity_def)
qed

lemma EmplaceBack_throws:
  assumes "PushBack T s this ctor v = Inl e"
  shows "EmplaceBack T s this ctor v = Inl e"
  using assms by (simp add: EmplaceBack_PushBack)

text \<open>
  Relocation reads the elements it relocates: where the first of them cannot be read,
  it is undefined.
\<close>

lemma relocate_reads_elements:
  assumes "load s first = Inl UB"
  shows "relocate T s first (Suc n) d_first = Inl UB"
  using assms by (simp add: relocate_def uninitialized_move_n_def)

text \<open>
  C5. In the growth branch of \<^verbatim>\<open>EmplaceBack\<close> and of the template \<^verbatim>\<open>PushBack\<close>
  (size equal to capacity), when the constructor of the new element throws, the
  exception leaves with every object and every block as before the call: buffer,
  capacity, size and elements of the array are unmodified.

  The constructor is called before any existing element is relocated. The hypotheses
  ask nothing of the existing elements, not even that they can be read: in a store
  where relocating them is undefined, the call still ends in the constructor's
  exception with the store unmodified, so at that point no element has been read,
  moved or copied. A body that relocated first would end there in undefined
  behaviour (\<open>relocate_reads_elements\<close>).
\<close>

theorem construction_throws_unmodified:
  assumes "heap_ok s" and "Size s this = Capacity s this" and "ctor v = None"
  shows "(\<exists>s'. EmplaceBack T s this ctor v = Inl (Exception s') \<and>
            vecs s' = vecs s \<and> blocks s' = blocks s \<and>
            GetAddress s' this = GetAddress s this \<and> Capacity s' this = Capacity s this \<and>
            Size s' this = Size s this \<and> elems s' this = elems s this) \<and>
         (\<exists>s'. PushBack T s this ctor v = Inl (Exception s') \<and>
            vecs s' = vecs s \<and> blocks s' = blocks s \<and>
            GetAddress s' this = GetAddress s this \<and> Capacity s' this = Capacity s this \<and>
            Size s' this = Size s this \<and> elems s' this = elems s this)"
proof -
  from PushBack_throws[where T=T and ctor=ctor and v=v, OF assms] obtain s' where
    s': "PushBack T s this ctor v = Inl (Exception s')" "vecs s' = vecs s" "blocks s' = blocks s"
    by blast
  have "GetAddress s' this = GetAddress s this" "Capacity s' this = Capacity s this"
    "Size s' this = Size s this" "elems s' this = elems s this"
    using s'(2,3) by (simp_all add: GetAddress_def Capacity_def Size_def elems_def cells_def)
  with s' EmplaceBack_throws[OF s'(1)] show ?thesis
    by blast
qed

text \<open>
  The theorem at two inputs, with a constructor that throws on a negative argument.
  On the full array \<open>[7, 8, 9]\<close> of capacity 3, \<^verbatim>\<open>EmplaceBack(-1)\<close> and \<^verbatim>\<open>PushBack(-1)\<close>
  end in the exception, and the array is still \<open>[7, 8, 9]\<close> at the same address with
  size 3 and capacity 3. On the store \<open>unreadable_element\<close>, relocating the one
  element into the new buffer is undefined, and both calls end in the exception with
  the blocks unmodified all the same.
\<close>

theorem construction_throws_unmodified_witness:
  "heap_ok two_vectors \<and> Size two_vectors 1 = Capacity two_vectors 1 \<and>
   (\<exists>s'. EmplaceBack int_T two_vectors 1 (\<lambda>n. if n < 0 then None else Some n) (- 1) =
            Inl (Exception s') \<and>
      vecs s' = vecs two_vectors \<and> blocks s' = blocks two_vectors \<and>
      GetAddress s' 1 = 2 \<and> Capacity s' 1 = 3 \<and> Size s' 1 = 3 \<and>
      elems s' 1 = [Val 7, Val 8, Val 9]) \<and>
   (\<exists>s'. PushBack int_T two_vectors 1 (\<lambda>n. if n < 0 then None else Some n) (- 1) =
            Inl (Exception s') \<and>
      vecs s' = vecs two_vectors \<and> blocks s' = blocks two_vectors \<and>
      GetAddress s' 1 = 2 \<and> Capacity s' 1 = 3 \<and> Size s' 1 = 3 \<and>
      elems s' 1 = [Val 7, Val 8, Val 9]) \<and>
   heap_ok unreadable_element \<and> Size unreadable_element 0 = Capacity unreadable_element 0 \<and>
   (let (s1, relocated_v) = RawMemory_ctor unreadable_element 2 in
      relocate int_T s1 (GetAddress s1 0, 0) (Size s1 0) (m_buffer relocated_v, 0) = Inl UB) \<and>
   (\<exists>s'. EmplaceBack int_T unreadable_element 0 (\<lambda>n. if n < 0 then None else Some n) (- 1) =
            Inl (Exception s') \<and>
      vecs s' = vecs unreadable_element \<and> blocks s' = blocks unreadable_element) \<and>
   (\<exists>s'. PushBack int_T unreadable_element 0 (\<lambda>n. if n < 0 then None else Some n) (- 1) =
            Inl (Exception s') \<and>
      vecs s' = vecs unreadable_element \<and> blocks s' = blocks unreadable_element)"
proof -
  let ?ctor = "\<lambda>n :: int. if n < 0 then None else Some n"
  have a1: "heap_ok two_vectors"
    by (auto simp: heap_ok_def two_vectors_def)
  have a2: "Size two_vectors 1 = Capacity two_vectors 1"
    by (simp add: two_vectors_def Size_def Capacity_def)
  have b1: "heap_ok unreadable_element"
    by (auto simp: heap_ok_def unreadable_element_def)
  have b2: "Size unreadable_element 0 = Capacity unreadable_element 0"
    by (simp add: unreadable_element_def Size_def Capacity_def)
  have c: "?ctor (- 1) = None"
    by simp
  have before: "GetAddress two_vectors 1 = 2" "Capacity two_vectors 1 = 3" "Size two_vectors 1 = 3"
    "elems two_vectors 1 = [Val 7, Val 8, Val 9]"
    by (simp_all add: two_vectors_def GetAddress_def Capacity_def Size_def elems_def cells_def)
  have undefined_relocation:
    "(let (s1, relocated_v) = RawMemory_ctor unreadable_element 2 in
        relocate int_T s1 (GetAddress s1 0, 0) (Size s1 0) (m_buffer relocated_v, 0) = Inl UB)"
    by (simp add: unreadable_element_def RawMemory_ctor_def Allocate_def GetAddress_def Size_def
        relocate_def uninitialized_move_n_def load_def int_T_def)
  from construction_throws_unmodified[where T=int_T and s=two_vectors and this=1
      and ctor="?ctor" and v="- 1", OF a1 a2 c]
  have full: "(\<exists>s'. EmplaceBack int_T two_vectors 1 ?ctor (- 1) = Inl (Exception s') \<and>
      vecs s' = vecs two_vectors \<and> blocks s' = blocks two_vectors \<and>
      GetAddress s' 1 = 2 \<and> Capacity s' 1 = 3 \<and> Size s' 1 = 3 \<and>
      elems s' 1 = [Val 7, Val 8, Val 9])"
    "(\<exists>s'. PushBack int_T two_vectors 1 ?ctor (- 1) = Inl (Exception s') \<and>
      vecs s' = vecs two_vectors \<and> blocks s' = blocks two_vectors \<and>
      GetAddress s' 1 = 2 \<and> Capacity s' 1 = 3 \<and> Size s' 1 = 3 \<and>
      elems s' 1 = [Val 7, Val 8, Val 9])"
    by (simp_all only: before)
  from construction_throws_unmodified[where T=int_T and s=unreadable_element and this=0
      and ctor="?ctor" and v="- 1", OF b1 b2 c]
  have unreadable: "(\<exists>s'. EmplaceBack int_T unreadable_element 0 ?ctor (- 1) = Inl (Exception s') \<and>
      vecs s' = vecs unreadable_element \<and> blocks s' = blocks unreadable_element)"
    "(\<exists>s'. PushBack int_T unreadable_element 0 ?ctor (- 1) = Inl (Exception s') \<and>
      vecs s' = vecs unreadable_element \<and> blocks s' = blocks unreadable_element)"
    by blast+
  from a1 a2 full b1 b2 undefined_relocation unreadable show ?thesis
    by (intro conjI)
qed

section \<open>Copy assignment into existing storage\<close>

lemma assign_loop_ptr_done [simp]: "\<not> i < n \<Longrightarrow> assign_loop_ptr s dst src i n = Inr s"
  by simp

lemma assign_loop_index_done [simp]: "\<not> i < n \<Longrightarrow> assign_loop_index s dst src i n = Inr s"
  by simp

declare assign_loop_ptr.simps [simp del] assign_loop_index.simps [simp del]

lemma assign_loop_ptr_blocks:
  "blocks s src = Some cs \<Longrightarrow> blocks s dst = Some ds \<Longrightarrow> src \<noteq> dst \<Longrightarrow>
   i + d \<le> length cs \<Longrightarrow> i + d \<le> length ds \<Longrightarrow> Raw \<notin> set (take d (drop i cs)) \<Longrightarrow>
   assign_loop_ptr s dst src i (i + d) =
     Inr (s\<lparr>blocks := (blocks s)(dst \<mapsto> take i ds @ take d (drop i cs) @ drop (i + d) ds)\<rparr>)"
proof (induction d arbitrary: s i ds)
  case 0
  then have "(blocks s)(dst \<mapsto> ds) = blocks s"
    by (simp add: fun_upd_idem)
  then show ?case by simp
next
  case (Suc d)
  let ?c = "cs ! i"
  let ?s1 = "s\<lparr>blocks := (blocks s)(dst \<mapsto> ds[i := ?c])\<rparr>"
  have l2: "take (Suc d) (drop i cs) = ?c # take d (drop (Suc i) cs)"
    using Suc.prems by (simp add: take_Suc_conv_app_nth Cons_nth_drop_Suc[symmetric])
  with Suc.prems have live: "cs ! i \<noteq> Raw" and live': "Raw \<notin> set (take d (drop (Suc i) cs))"
    by auto
  have ld: "load s (src, i) = Inr ?c"
    using Suc.prems live by (simp add: load_block)
  have pt: "assign_at s (dst, i) ?c = Inr ?s1"
    using Suc.prems by (simp add: assign_at_def put_block)
  have rest: "assign_loop_ptr ?s1 dst src (Suc i) (Suc i + d) =
      Inr (?s1\<lparr>blocks := (blocks ?s1)(dst \<mapsto>
        take (Suc i) (ds[i := ?c]) @ take d (drop (Suc i) cs) @ drop (Suc i + d) (ds[i := ?c]))\<rparr>)"
    by (rule Suc.IH) (use Suc.prems live' in simp_all)
  have l1: "take (Suc i) (ds[i := ?c]) = take i ds @ [?c]"
    using Suc.prems by (simp add: take_Suc_conv_app_nth)
  have "assign_loop_ptr s dst src i (i + Suc d) = assign_loop_ptr ?s1 dst src (Suc i) (Suc i + d)"
    using ld pt by (subst assign_loop_ptr.simps) simp
  then show ?case
    using rest l1 l2 by (simp, intro store.equality) (simp_all add: fun_upd_def)
qed

lemma assign_loop_index_ptr:
  "n \<le> m_capacity dst \<Longrightarrow> n \<le> m_capacity src \<Longrightarrow>
   assign_loop_index s dst src i n = assign_loop_ptr s (m_buffer dst) (m_buffer src) i n"
proof (induction s "m_buffer dst" "m_buffer src" i n rule: assign_loop_ptr.induct)
  case (1 s i n)
  show ?case
  proof (cases "i < n")
    case True
    then show ?thesis
      using 1
      by (subst assign_loop_index.simps, subst assign_loop_ptr.simps)
        (auto simp: RawMemory_index_def split: sum.splits)
  next
    case False
    then show ?thesis by simp
  qed
qed

lemma assign_loop_ptr_the:
  assumes "blocks s src \<noteq> None" "blocks s dst \<noteq> None" "src \<noteq> dst"
    "n \<le> length (the (blocks s src))" "n \<le> length (the (blocks s dst))"
    "Raw \<notin> set (take n (the (blocks s src)))"
  shows "assign_loop_ptr s dst src 0 n =
     Inr (s\<lparr>blocks := (blocks s)(dst \<mapsto> take n (the (blocks s src)) @ drop n (the (blocks s dst)))\<rparr>)"
  using assms assign_loop_ptr_blocks[of s src "the (blocks s src)" dst "the (blocks s dst)" 0 n]
  by auto

lemma Size_blocks_update [simp]: "Size (s\<lparr>blocks := f\<rparr>) r = Size s r"
  by (simp add: Size_def)

lemma Capacity_blocks_update [simp]: "Capacity (s\<lparr>blocks := f\<rparr>) r = Capacity s r"
  by (simp add: Capacity_def)

lemma GetAddress_blocks_update [simp]: "GetAddress (s\<lparr>blocks := f\<rparr>) r = GetAddress s r"
  by (simp add: GetAddress_def)

lemma set_size_simps [simp]:
  "Size (set_size s r n) r' = (if r' = r then n else Size s r')"
  "Capacity (set_size s r n) r' = Capacity s r'"
  "GetAddress (set_size s r n) r' = GetAddress s r'"
  "blocks (set_size s r n) = blocks s"
  "brk (set_size s r n) = brk s"
  by (simp_all add: set_size_def set_vec_def Size_def Capacity_def GetAddress_def)

lemma live_take_drop:
  assumes "Raw \<notin> set (take n cs)" and "i + d \<le> n"
  shows "Raw \<notin> set (take d (drop i cs))"
proof -
  have "take d (drop i cs) = drop i (take (i + d) cs)"
    by (simp add: drop_take)
  then have "set (take d (drop i cs)) \<subseteq> set (take (i + d) cs)"
    by (simp add: set_drop_subset)
  also have "\<dots> \<subseteq> set (take n cs)"
    using assms(2) by (rule set_take_subset_set_take)
  finally show ?thesis
    using assms(1) by blast
qed

lemma wf_vector_cases:
  assumes "wf_vector s r"
  obtains (null) "blocks s (GetAddress s r) = None" "GetAddress s r = 0" "Capacity s r = 0" "Size s r = 0"
  | (block) cs where "blocks s (GetAddress s r) = Some cs" "length cs = Capacity s r"
      "Size s r \<le> Capacity s r" "Raw \<notin> set (take (Size s r) cs)" "GetAddress s r \<noteq> 0"
proof (cases "blocks s (GetAddress s r)")
  case None
  with assms show ?thesis
    by (intro null) (auto simp: wf_vector_def)
next
  case (Some cs)
  with assms heap_ok_addr[of s "GetAddress s r" cs] show ?thesis
    by (intro block[of cs]) (auto simp: wf_vector_def elems_def cells_def)
qed

lemma wf_vector_block:
  assumes "heap_ok s" and "blocks s (GetAddress s r) = Some cs" and "length cs = Capacity s r"
    and "Size s r \<le> Capacity s r" and "Raw \<notin> set (take (Size s r) cs)"
  shows "wf_vector s r" and "elems s r = take (Size s r) cs"
  using assms by (simp_all add: wf_vector_def elems_def cells_def)

lemma copy_assign_shrink:
  fixes s :: "'a store"
  assumes bt: "blocks s (GetAddress s this) = Some cs" "length cs = Capacity s this"
      "Size s this \<le> Capacity s this" "Raw \<notin> set (take (Size s this) cs)"
    and br: "blocks s (GetAddress s rhs) = Some ds" "length ds = Capacity s rhs"
      "Size s rhs \<le> Capacity s rhs" "Raw \<notin> set (take (Size s rhs) ds)"
    and neq: "GetAddress s this \<noteq> GetAddress s rhs" and ne: "this \<noteq> rhs"
    and lt: "Size s rhs < Size s this"
  shows "\<exists>s'. copy_assign s this rhs = Inr s' \<and> vecs s' = vecs (set_size s this (Size s rhs)) \<and>
           brk s' = brk s \<and>
           blocks s' = (blocks s)(GetAddress s this \<mapsto>
             take (Size s rhs) ds @ replicate (Size s this - Size s rhs) Raw @ drop (Size s this) cs)"
proof -
  let ?bt = "GetAddress s this" and ?br = "GetAddress s rhs"
  let ?nt = "Size s this" and ?nr = "Size s rhs"
  let ?b1 = "take ?nr ds @ drop ?nr cs"
  let ?s1 = "s\<lparr>blocks := (blocks s)(?bt \<mapsto> take 0 cs @ take ?nr (drop 0 ds) @ drop (0 + ?nr) cs)\<rparr>"
  have st1: "assign_loop_ptr s ?bt ?br 0 (0 + ?nr) = Inr ?s1"
    using bt br neq lt by (intro assign_loop_ptr_blocks) auto
  have b1: "blocks ?s1 ?bt = Some ?b1"
    by simp
  have len1: "length ?b1 = Capacity s this"
    using bt br lt by simp
  have live1: "\<forall>k<?nt - ?nr. ?b1 ! (?nr + k) \<noteq> Raw"
  proof (intro allI impI)
    fix k assume k: "k < ?nt - ?nr"
    have "?b1 ! (?nr + k) = cs ! (?nr + k)"
      using br lt k bt by (simp add: nth_append)
    moreover have "cs ! (?nr + k) \<in> set (take ?nt cs)"
      using k bt by (metis in_set_conv_nth length_take less_diff_conv add.commute min.absorb2 nth_take)
    ultimately show "?b1 ! (?nr + k) \<noteq> Raw"
      using bt(4) by metis
  qed
  let ?s2 = "?s1\<lparr>blocks := (blocks ?s1)(?bt \<mapsto>
      take ?nr ?b1 @ replicate (?nt - ?nr) Raw @ drop (?nr + (?nt - ?nr)) ?b1)\<rparr>"
  have st2: "destroy_n ?s1 (?bt, ?nr) (?nt - ?nr) = Inr ?s2"
    using b1 len1 live1 bt lt by (intro destroy_n_blocks) auto
  have run: "copy_assign s this rhs = Inr (set_size ?s2 this ?nr)"
    using ne lt bt(3) st1 st2 by (simp add: copy_assign_def)
  have "blocks (set_size ?s2 this ?nr) = (blocks s)(?bt \<mapsto>
      take ?nr ds @ replicate (?nt - ?nr) Raw @ drop ?nt cs)"
    using br lt bt by simp
  moreover have "vecs (set_size ?s2 this ?nr) = vecs (set_size s this ?nr)"
    by (simp add: set_size_def set_vec_def)
  ultimately show ?thesis
    using run by (intro exI[of _ "set_size ?s2 this ?nr"]) simp
qed

lemma copy_assign_extend:
  fixes s :: "'a store"
  assumes bt: "blocks s (GetAddress s this) = Some cs" "length cs = Capacity s this"
      "Size s this \<le> Capacity s this"
    and br: "blocks s (GetAddress s rhs) = Some ds" "length ds = Capacity s rhs"
      "Size s rhs \<le> Capacity s rhs" "Raw \<notin> set (take (Size s rhs) ds)"
    and neq: "GetAddress s this \<noteq> GetAddress s rhs" and ne: "this \<noteq> rhs"
    and le: "Size s this \<le> Size s rhs" and fits: "Size s rhs \<le> Capacity s this"
  shows "\<exists>s'. copy_assign s this rhs = Inr s' \<and> vecs s' = vecs (set_size s this (Size s rhs)) \<and>
           brk s' = brk s \<and>
           blocks s' = (blocks s)(GetAddress s this \<mapsto> take (Size s rhs) ds @ drop (Size s rhs) cs)"
proof -
  let ?bt = "GetAddress s this" and ?br = "GetAddress s rhs"
  let ?nt = "Size s this" and ?nr = "Size s rhs"
  let ?b1 = "take ?nt ds @ drop ?nt cs"
  let ?s1 = "s\<lparr>blocks := (blocks s)(?bt \<mapsto> take 0 cs @ take ?nt (drop 0 ds) @ drop (0 + ?nt) cs)\<rparr>"
  have "Raw \<notin> set (take ?nt (drop 0 ds))"
    using live_take_drop[OF br(4), of 0 ?nt] le by simp
  then have "assign_loop_ptr s ?bt ?br 0 (0 + ?nt) = Inr ?s1"
    using bt br neq le by (intro assign_loop_ptr_blocks) auto
  moreover have "assign_loop_index s (m_data (vecs s this)) (m_data (vecs s rhs)) 0 ?nt =
      assign_loop_ptr s ?bt ?br 0 ?nt"
    using bt(3) br(3) le unfolding GetAddress_def
    by (intro assign_loop_index_ptr) (simp_all add: Capacity_def)
  ultimately have st1:
    "assign_loop_index s (m_data (vecs s this)) (m_data (vecs s rhs)) 0 ?nt = Inr ?s1"
    by simp
  have b1: "blocks ?s1 ?bt = Some ?b1" "blocks ?s1 ?br = Some ds"
    using neq br(1) by simp_all
  have len1: "length ?b1 = Capacity s this"
    using bt br le by simp
  have "take ?nt ds @ take (?nr - ?nt) (drop ?nt ds) = take ?nr ds"
    using le by (metis le_add_diff_inverse take_add)
  then have tk: "take ?nt ds @ take (?nr - ?nt) (drop ?nt ds) @ xs = take ?nr ds @ xs" for xs
    by (metis append_assoc)
  show ?thesis
  proof (cases "?nt < ?nr")
    case True
    let ?s2 = "?s1\<lparr>blocks := (blocks ?s1)(?bt \<mapsto>
      take ?nt ?b1 @ take (?nr - ?nt) (drop ?nt ds) @ drop (?nt + (?nr - ?nt)) ?b1)\<rparr>"
    have "\<forall>k<?nr - ?nt. ds ! (?nt + k) \<noteq> Raw"
      using live_take_drop[OF br(4), of ?nt "?nr - ?nt"] le br
      by (intro live_nth) simp_all
    then have st2: "uninitialized_copy_n ?s1 (?br, ?nt) (?nr - ?nt) (?bt, ?nt) = Inr ?s2"
      using b1 len1 neq br le fits by (intro uninitialized_copy_n_blocks) auto
    have run: "copy_assign s this rhs = Inr (set_size ?s2 this ?nr)"
      using ne True fits st1 st2 by (simp add: copy_assign_def)
    have "blocks (set_size ?s2 this ?nr) = (blocks s)(?bt \<mapsto> take ?nr ds @ drop ?nr cs)"
      using br le bt fits by (simp add: tk)
    moreover have "vecs (set_size ?s2 this ?nr) = vecs (set_size s this ?nr)"
      by (simp add: set_size_def set_vec_def)
    ultimately show ?thesis
      using run by (intro exI[of _ "set_size ?s2 this ?nr"]) simp
  next
    case False
    with le have eq: "?nr = ?nt" by simp
    have run: "copy_assign s this rhs = Inr (set_size ?s1 this ?nr)"
      using ne False fits st1 eq by (simp add: copy_assign_def)
    have "blocks (set_size ?s1 this ?nr) = (blocks s)(?bt \<mapsto> take ?nr ds @ drop ?nr cs)"
      using eq by simp
    moreover have "vecs (set_size ?s1 this ?nr) = vecs (set_size s this ?nr)"
      by (simp add: set_size_def set_vec_def)
    ultimately show ?thesis
      using run by (intro exI[of _ "set_size ?s1 this ?nr"]) simp
  qed
qed

lemma copy_assign_from_empty:
  fixes s :: "'a store"
  assumes bt: "blocks s (GetAddress s this) = Some cs" "length cs = Capacity s this"
      "Size s this \<le> Capacity s this" "Raw \<notin> set (take (Size s this) cs)"
    and ne: "this \<noteq> rhs" and z: "Size s rhs = 0"
  shows "\<exists>s'. copy_assign s this rhs = Inr s' \<and> vecs s' = vecs (set_size s this (Size s rhs)) \<and>
           brk s' = brk s \<and>
           blocks s' = (blocks s)(GetAddress s this \<mapsto> replicate (Size s this) Raw @ drop (Size s this) cs)"
proof (cases "0 < Size s this")
  case True
  let ?bt = "GetAddress s this" and ?nt = "Size s this"
  let ?s2 = "s\<lparr>blocks := (blocks s)(?bt \<mapsto> take 0 cs @ replicate ?nt Raw @ drop (0 + ?nt) cs)\<rparr>"
  have "\<forall>k<?nt. cs ! (0 + k) \<noteq> Raw"
    using bt by (intro live_nth) simp_all
  then have st2: "destroy_n s (?bt, 0) ?nt = Inr ?s2"
    using bt by (intro destroy_n_blocks) auto
  have run: "copy_assign s this rhs = Inr (set_size ?s2 this 0)"
    using ne True z st2 by (simp add: copy_assign_def)
  moreover have "vecs (set_size ?s2 this 0) = vecs (set_size s this 0)"
    by (simp add: set_size_def set_vec_def)
  ultimately show ?thesis
    using z by (intro exI[of _ "set_size ?s2 this 0"]) simp
next
  case False
  then have "(blocks s)(GetAddress s this \<mapsto> replicate (Size s this) Raw @ drop (Size s this) cs) = blocks s"
    using bt(1) by (simp add: fun_upd_idem)
  moreover have "copy_assign s this rhs = Inr (set_size s this 0)"
    using ne False z by (simp add: copy_assign_def)
  ultimately show ?thesis
    using z by (intro exI[of _ "set_size s this 0"]) simp
qed

lemma copy_assign_core:
  fixes s :: "'a store"
  assumes wt: "wf_vector s this" and wr: "wf_vector s rhs" and ne: "this \<noteq> rhs"
    and sep: "GetAddress s this = GetAddress s rhs \<Longrightarrow> GetAddress s this = 0"
    and fits: "Size s rhs \<le> Capacity s this"
  shows "\<exists>s'. copy_assign s this rhs = Inr s' \<and> vecs s' = vecs (set_size s this (Size s rhs)) \<and>
           brk s' = brk s \<and> dom (blocks s') = dom (blocks s) \<and>
           length (cells s' this) = length (cells s this) \<and>
           take (Size s rhs) (cells s' this) = take (Size s rhs) (cells s rhs)"
  using wt
proof (cases rule: wf_vector_cases)
  case null
  with fits have z: "Size s rhs = 0" by simp
  have "copy_assign s this rhs = Inr (set_size s this 0)"
    using ne null z by (simp add: copy_assign_def)
  then show ?thesis
    using z by (intro exI[of _ "set_size s this 0"]) (simp add: cells_def)
next
  case (block cs)
  note bt = block
  have post: ?thesis
    if "copy_assign s this rhs = Inr s'" "vecs s' = vecs (set_size s this (Size s rhs))"
      "brk s' = brk s" "blocks s' = (blocks s)(GetAddress s this \<mapsto> b)"
      "length b = length cs" "take (Size s rhs) b = take (Size s rhs) (cells s rhs)" for s' b
  proof -
    have "GetAddress s' this = GetAddress s this"
      using that(2) by (simp add: GetAddress_def set_size_def set_vec_def)
    then have "cells s' this = b" "cells s this = cs"
      using that(4) bt(1) by (simp_all add: cells_def)
    moreover have "dom (blocks s') = dom (blocks s)"
      using that(4) bt(1) by (simp add: insert_absorb domI)
    ultimately show ?thesis
      using that by (intro exI[of _ s']) simp
  qed
  show ?thesis
  proof (cases "Size s rhs = 0")
    case True
    from copy_assign_from_empty[OF bt(1-4) ne True] obtain s' where
      r: "copy_assign s this rhs = Inr s'" "vecs s' = vecs (set_size s this (Size s rhs))"
      "brk s' = brk s"
      "blocks s' = (blocks s)(GetAddress s this \<mapsto> replicate (Size s this) Raw @ drop (Size s this) cs)"
      by blast
    show ?thesis
      by (rule post[OF r]) (use True bt in simp_all)
  next
    case False
    from wr show ?thesis
    proof (cases rule: wf_vector_cases)
      case null
      with False show ?thesis by simp
    next
      case (block ds)
      note br = block
      from sep bt(5) have neq: "GetAddress s this \<noteq> GetAddress s rhs"
        by auto
      have cr: "cells s rhs = ds"
        using br(1) by (simp add: cells_def)
      show ?thesis
      proof (cases "Size s rhs < Size s this")
        case True
        from copy_assign_shrink[OF bt(1-4) br(1-4) neq ne True] obtain s' where
          r: "copy_assign s this rhs = Inr s'" "vecs s' = vecs (set_size s this (Size s rhs))"
          "brk s' = brk s"
          "blocks s' = (blocks s)(GetAddress s this \<mapsto>
             take (Size s rhs) ds @ replicate (Size s this - Size s rhs) Raw @ drop (Size s this) cs)"
          by blast
        show ?thesis
          by (rule post[OF r]) (use True bt br cr in simp_all)
      next
        case False
        then have le: "Size s this \<le> Size s rhs" by simp
        from copy_assign_extend[OF bt(1-3) br(1-4) neq ne le fits] obtain s' where
          r: "copy_assign s this rhs = Inr s'" "vecs s' = vecs (set_size s this (Size s rhs))"
          "brk s' = brk s"
          "blocks s' = (blocks s)(GetAddress s this \<mapsto> take (Size s rhs) ds @ drop (Size s rhs) cs)"
          by blast
        show ?thesis
          by (rule post[OF r]) (use bt br cr fits in simp_all)
      qed
    qed
  qed
qed

lemma wf_two_vectors: "wf_vector two_vectors 0" "wf_vector two_vectors 1"
  by (simp_all add: wf_vector_def heap_ok_def elems_def cells_def two_vectors_def
      Size_def Capacity_def GetAddress_def)

text \<open>
  C7. Copy-assigning from a well-formed source whose size does not exceed the
  capacity of the well-formed destination (two distinct arrays never sharing a
  buffer) returns without allocating or freeing anything: the destination keeps its
  capacity and its buffer address, its size becomes the source's size, and its
  elements, also as read through \<^verbatim>\<open>operator[]\<close>, are the source's.
\<close>

theorem copy_assign_reuses_storage:
  fixes s :: "'a store"
  assumes wt: "wf_vector s this" and wr: "wf_vector s rhs"
    and sep: "this \<noteq> rhs \<Longrightarrow> GetAddress s this = GetAddress s rhs \<Longrightarrow> GetAddress s this = 0"
    and fits: "Size s rhs \<le> Capacity s this"
  shows "\<exists>s'. copy_assign s this rhs = Inr s' \<and>
           Capacity s' this = Capacity s this \<and> GetAddress s' this = GetAddress s this \<and>
           brk s' = brk s \<and> dom (blocks s') = dom (blocks s) \<and>
           Size s' this = Size s rhs \<and> elems s' this = elems s rhs \<and>
           (\<forall>i<Size s rhs. at s' this i = at s rhs i)"
proof (cases "this = rhs")
  case True
  then show ?thesis by (simp add: copy_assign_def)
next
  case ne: False
  from copy_assign_core[OF wt wr ne sep[OF ne] fits] obtain s' where
    s': "copy_assign s this rhs = Inr s'" "vecs s' = vecs (set_size s this (Size s rhs))"
      "brk s' = brk s" "dom (blocks s') = dom (blocks s)"
      "length (cells s' this) = length (cells s this)"
      "take (Size s rhs) (cells s' this) = take (Size s rhs) (cells s rhs)"
    by blast
  have f: "Capacity s' this = Capacity s this" "GetAddress s' this = GetAddress s this"
    "Size s' this = Size s rhs"
    using s'(2) by (simp_all add: Capacity_def GetAddress_def Size_def set_size_def set_vec_def)
  have el: "elems s' this = elems s rhs"
    using s'(6) f(3) by (simp add: elems_def)
  have hk: "heap_ok s'"
    using wt s'(3,4) unfolding wf_vector_def heap_ok_def
    by (metis domIff)
  have "wf_vector s' this"
    unfolding wf_vector_def
  proof (intro conjI)
    show "heap_ok s'" by (rule hk)
    show "Size s' this \<le> Capacity s' this" using f fits by simp
    show "Raw \<notin> set (elems s' this)" using el wr by (simp add: wf_vector_def)
    show "case blocks s' (GetAddress s' this) of
        None \<Rightarrow> GetAddress s' this = 0 \<and> Capacity s' this = 0
      | Some cs \<Rightarrow> length cs = Capacity s' this"
    proof (cases "blocks s' (GetAddress s' this)")
      case None
      then have "blocks s (GetAddress s this) = None"
        using s'(4) f(2) by (metis domIff)
      with wt None f show ?thesis
        by (simp add: wf_vector_def)
    next
      case (Some b)
      then obtain cs where cs: "blocks s (GetAddress s this) = Some cs"
        using s'(4) f(2) by (metis domIff not_Some_eq)
      with wt have "length cs = Capacity s this"
        by (simp add: wf_vector_def)
      with Some cs s'(5) f show ?thesis
        by (simp add: cells_def)
    qed
  qed
  then have "\<forall>i<Size s rhs. at s' this i = at s rhs i"
    using f(3) el wr by (simp add: at_elems)
  with s'(1,3,4) f el show ?thesis by blast
qed

theorem copy_assign_reuses_storage_witness:
  "wf_vector two_vectors 0 \<and> wf_vector two_vectors 1 \<and>
   GetAddress two_vectors 0 \<noteq> GetAddress two_vectors 1 \<and>
   Size two_vectors 1 \<le> Capacity two_vectors 0 \<and>
   (\<exists>s'. copy_assign two_vectors 0 1 = Inr s' \<and> Capacity s' 0 = 4 \<and> GetAddress s' 0 = 1 \<and>
      Size s' 0 = 3 \<and> elems s' 0 = [Val 7, Val 8, Val 9])"
proof -
  have h3: "GetAddress two_vectors 0 \<noteq> GetAddress two_vectors 1"
    by (simp add: two_vectors_def GetAddress_def)
  have h4: "Size two_vectors 1 \<le> Capacity two_vectors 0"
    by (simp add: two_vectors_def Size_def Capacity_def)
  from copy_assign_reuses_storage[OF wf_two_vectors _ h4] h3 obtain s' where
    "copy_assign two_vectors 0 1 = Inr s'" "Capacity s' 0 = Capacity two_vectors 0"
    "GetAddress s' 0 = GetAddress two_vectors 0" "Size s' 0 = Size two_vectors 1"
    "elems s' 0 = elems two_vectors 1"
    by blast
  moreover have "Capacity two_vectors 0 = 4" "GetAddress two_vectors 0 = 1" "Size two_vectors 1 = 3"
    "elems two_vectors 1 = [Val 7, Val 8, Val 9]"
    by (simp_all add: two_vectors_def Size_def Capacity_def GetAddress_def elems_def cells_def)
  ultimately show ?thesis
    using wf_two_vectors h3 h4 by auto
qed

section \<open>Preservation of the invariant\<close>

lemma keeps_vecsD: "keeps_vecs s r \<Longrightarrow> r = Inr s' \<Longrightarrow> vecs s' = vecs s"
  by (simp add: keeps_vecs_def)

lemma keeps_vecs_exn: "keeps_vecs s r \<Longrightarrow> r \<noteq> Inl (Exception e)"
  by (auto simp: keeps_vecs_def)

lemma keeps_vecs_bnd:
  assumes "keeps_vecs s m" and "\<And>s1. m = Inr s1 \<Longrightarrow> keeps_vecs s1 (f s1)"
  shows "keeps_vecs s (bnd m f)"
proof (cases m)
  case (Inl e)
  with assms(1) show ?thesis by simp
next
  case (Inr s1)
  with assms have "vecs s1 = vecs s" "keeps_vecs s1 (f s1)"
    by (simp_all add: keeps_vecs_def)
  with Inr show ?thesis
    by (auto simp: keeps_vecs_def split: sum.splits error.splits)
qed

lemma keeps_vecs_bnd_load:
  assumes "\<And>c. keeps_vecs s (f c)"
  shows "keeps_vecs s (bnd (load s p) f)"
  using assms by (auto simp: load_def bnd_def keeps_vecs_def split: option.splits)

lemma keeps_vecs_put: "keeps_vecs s (put s p c)"
  by (simp add: put_def keeps_vecs_def split: option.splits)

lemma keeps_vecs_construct_at: "keeps_vecs s (construct_at s p c)"
  by (simp add: construct_at_def keeps_vecs_put)

lemma keeps_vecs_assign_at: "keeps_vecs s (assign_at s p c)"
  by (simp add: assign_at_def keeps_vecs_put)

lemma keeps_vecs_destroy_at: "keeps_vecs s (destroy_at s p)"
  unfolding destroy_at_def by (intro keeps_vecs_bnd_load keeps_vecs_put)

lemma keeps_vecs_uninitialized_copy_n: "keeps_vecs s (uninitialized_copy_n s first n d_first)"
proof (induction n arbitrary: s first d_first)
  case 0
  show ?case by (simp add: keeps_vecs_def)
next
  case (Suc n)
  show ?case
    unfolding uninitialized_copy_n.simps
    by (intro keeps_vecs_bnd_load keeps_vecs_bnd keeps_vecs_construct_at Suc.IH)
qed

lemma keeps_vecs_relocate: "keeps_vecs s (relocate T s first n d_first)"
  by (simp add: relocate_eq keeps_vecs_uninitialized_copy_n)

lemma keeps_vecs_uninitialized_value_construct_n:
  "keeps_vecs s (uninitialized_value_construct_n T s first n)"
proof (induction n arbitrary: s first)
  case 0
  show ?case by (simp add: keeps_vecs_def)
next
  case (Suc n)
  show ?case
    unfolding uninitialized_value_construct_n.simps
    by (intro keeps_vecs_bnd keeps_vecs_construct_at Suc.IH)
qed

lemma keeps_vecs_uninitialized_default_construct_n:
  "keeps_vecs s (uninitialized_default_construct_n T s first n)"
proof (induction n arbitrary: s first)
  case 0
  show ?case by (simp add: keeps_vecs_def)
next
  case (Suc n)
  show ?case
    unfolding uninitialized_default_construct_n.simps
    by (intro keeps_vecs_bnd keeps_vecs_construct_at Suc.IH)
qed

lemma keeps_vecs_destroy_n: "keeps_vecs s (destroy_n s first n)"
proof (induction n arbitrary: s first)
  case 0
  show ?case by (simp add: keeps_vecs_def)
next
  case (Suc n)
  show ?case
    unfolding destroy_n.simps
    by (intro keeps_vecs_bnd keeps_vecs_destroy_at Suc.IH)
qed

lemma keeps_vecs_move_backward_n: "keeps_vecs s (move_backward_n s first n d_last)"
proof (induction n arbitrary: s d_last)
  case 0
  show ?case by (simp add: keeps_vecs_def)
next
  case (Suc n)
  show ?case
  proof (cases "snd d_last = 0")
    case True
    then show ?thesis by (simp add: keeps_vecs_def)
  next
    case False
    then show ?thesis
      unfolding move_backward_n.simps
      by (simp only: if_False)
         (intro keeps_vecs_bnd_load keeps_vecs_bnd keeps_vecs_assign_at Suc.IH)
  qed
qed

lemma keeps_vecs_move_backward: "keeps_vecs s (move_backward s first lst d_last)"
  by (simp add: move_backward_def keeps_vecs_move_backward_n) (simp add: keeps_vecs_def)

lemma keeps_vecs_Deallocate: "keeps_vecs s (Deallocate s buf)"
  by (simp add: Deallocate_def keeps_vecs_def split: option.splits)

lemma keeps_vecs_RawMemory_dtor: "keeps_vecs s (RawMemory_dtor s m)"
  by (simp add: RawMemory_dtor_def keeps_vecs_Deallocate)

declare Erase_loop.simps [simp del]

lemma load_no_exn: "load s p \<noteq> Inl (Exception e)"
  by (simp add: load_def split: option.splits)

lemma keeps_vecs_Erase_loop: "keeps_vecs s (Erase_loop s b it1 it2 e)"
proof (induction s b it1 it2 e rule: Erase_loop.induct)
  case (1 s b it1 it2 e)
  show ?case
  proof (cases "it2 = e")
    case True
    then show ?thesis
      by (subst Erase_loop.simps) (simp add: keeps_vecs_def)
  next
    case False
    show ?thesis
    proof (cases "load s (b, it2)")
      case (Inl err)
      with False load_no_exn[of s "(b, it2)"] show ?thesis
        by (subst Erase_loop.simps) (auto simp: keeps_vecs_def split: error.splits)
    next
      case (Inr c)
      note ld = Inr
      show ?thesis
      proof (cases "assign_at s (b, it1) c")
        case (Inl err)
        with False ld keeps_vecs_assign_at[of s "(b, it1)" c] show ?thesis
          by (subst Erase_loop.simps) (simp add: keeps_vecs_def)
      next
        case (Inr s')
        with 1[OF False ld Inr] keeps_vecs_assign_at[of s "(b, it1)" c] False ld
        show ?thesis
          by (subst Erase_loop.simps) (auto simp: keeps_vecs_def split: sum.splits error.splits)
      qed
    qed
  qed
qed

lemma Erase_loop_bound: "Erase_loop s b it1 it2 e = Inr s' \<Longrightarrow> it2 \<le> e"
proof (induction s b it1 it2 e rule: Erase_loop.induct)
  case (1 s b it1 it2 e)
  show ?case
  proof (cases "it2 = e")
    case True
    then show ?thesis by simp
  next
    case False
    with "1.prems" obtain c s1 where
      "load s (b, it2) = Inr c" "assign_at s (b, it1) c = Inr s1"
      "Erase_loop s1 b (Suc it1) (Suc it2) e = Inr s'"
      by (subst (asm) Erase_loop.simps) (auto split: sum.splits)
    with "1.IH"[OF False this(1,2)] show ?thesis by simp
  qed
qed

lemma RawMemory_index_no_exn: "RawMemory_index m i \<noteq> Inl (Exception e)"
  by (simp add: RawMemory_index_def)

lemma keeps_vecs_assign_loop_ptr: "keeps_vecs s (assign_loop_ptr s dst src i n)"
proof (induction s dst src i n rule: assign_loop_ptr.induct)
  case (1 s dst src i n)
  show ?case
  proof (cases "i < n")
    case False
    then show ?thesis by (simp add: keeps_vecs_def)
  next
    case True
    show ?thesis
    proof (cases "load s (src, i)")
      case (Inl err)
      with True load_no_exn[of s "(src, i)"] show ?thesis
        by (subst assign_loop_ptr.simps) (auto simp: keeps_vecs_def split: error.splits)
    next
      case (Inr c)
      note ld = Inr
      show ?thesis
      proof (cases "assign_at s (dst, i) c")
        case (Inl err)
        with True ld keeps_vecs_assign_at[of s "(dst, i)" c] show ?thesis
          by (subst assign_loop_ptr.simps) (simp add: keeps_vecs_def)
      next
        case (Inr s')
        with 1[OF True ld Inr] keeps_vecs_assign_at[of s "(dst, i)" c] True ld
        show ?thesis
          by (subst assign_loop_ptr.simps) (auto simp: keeps_vecs_def split: sum.splits error.splits)
      qed
    qed
  qed
qed

lemma keeps_vecs_assign_loop_index: "keeps_vecs s (assign_loop_index s dst src i n)"
proof (induction s dst src i n rule: assign_loop_index.induct)
  case (1 s dst src i n)
  show ?case
  proof (cases "i < n")
    case False
    then show ?thesis by (simp add: keeps_vecs_def)
  next
    case True
    show ?thesis
    proof (cases "i < m_capacity src \<and> i < m_capacity dst")
      case False
      with True load_no_exn[of s "(m_buffer src, i)"] show ?thesis
        by (subst assign_loop_index.simps)
          (auto simp: keeps_vecs_def RawMemory_index_def split: error.splits sum.splits)
    next
      case idx: True
      show ?thesis
      proof (cases "load s (m_buffer src, i)")
        case (Inl err)
        with True idx load_no_exn[of s "(m_buffer src, i)"] show ?thesis
          by (subst assign_loop_index.simps)
            (auto simp: keeps_vecs_def RawMemory_index_def split: error.splits)
      next
        case (Inr c)
        note ld = Inr
        show ?thesis
        proof (cases "assign_at s (m_buffer dst, i) c")
          case (Inl err)
          with True idx ld keeps_vecs_assign_at[of s "(m_buffer dst, i)" c] show ?thesis
            by (subst assign_loop_index.simps) (simp add: keeps_vecs_def RawMemory_index_def)
        next
          case (Inr s')
          have "keeps_vecs s' (assign_loop_index s' dst src (Suc i) n)"
            by (rule 1[OF True _ ld _ Inr]) (use idx in \<open>simp_all add: RawMemory_index_def\<close>)
          with Inr keeps_vecs_assign_at[of s "(m_buffer dst, i)" c] True idx ld
          show ?thesis
            by (subst assign_loop_index.simps)
              (auto simp: keeps_vecs_def RawMemory_index_def split: sum.splits error.splits)
        qed
      qed
    qed
  qed
qed

lemma leaves_post: "leaves P r = post P P r"
  by (simp add: leaves_def post_def)

lemma post_Inr [simp]: "post Q E (Inr x) = Q x"
  by (simp add: post_def)

lemma post_Inl [simp]:
  "post Q E (Inl (Exception s)) = E s" "post Q E (Inl UB) = True" "post Q E (Inl AssertFailed) = True"
  by (simp_all add: post_def)

lemma post_bnd: "post (\<lambda>x. post Q E (f x)) E m \<Longrightarrow> post Q E (bnd m f)"
  by (auto simp: post_def bnd_def split: sum.splits error.splits)

lemma post_keeps: "keeps_vecs s m \<Longrightarrow> (\<And>s1. vecs s1 = vecs s \<Longrightarrow> Q s1) \<Longrightarrow> post Q E m"
  by (auto simp: post_def keeps_vecs_def split: sum.splits error.splits)

lemma post_load: "(\<And>c. Q c) \<Longrightarrow> post Q E (load s p)"
  by (auto simp: post_def load_def split: option.splits)

lemma post_RawMemory_plus:
  "(offset \<le> m_capacity m \<Longrightarrow> Q (m_buffer m, offset)) \<Longrightarrow> post Q E (RawMemory_plus m offset)"
  by (simp add: RawMemory_plus_def)

lemma post_RawMemory_index:
  "(index < m_capacity m \<Longrightarrow> Q (m_buffer m, index)) \<Longrightarrow> post Q E (RawMemory_index m index)"
  by (simp add: RawMemory_index_def)

lemma post_Erase_loop:
  "(\<And>s1. vecs s1 = vecs s \<Longrightarrow> it2 \<le> e \<Longrightarrow> Q s1) \<Longrightarrow> post Q E (Erase_loop s b it1 it2 e)"
  using keeps_vecs_Erase_loop[of s b it1 it2 e] Erase_loop_bound[of s b it1 it2 e]
  by (auto simp: post_def keeps_vecs_def split: sum.splits error.splits)

lemmas post_rules = post_bnd post_load post_RawMemory_plus post_RawMemory_index
  post_keeps[OF keeps_vecs_put] post_keeps[OF keeps_vecs_construct_at]
  post_keeps[OF keeps_vecs_assign_at] post_keeps[OF keeps_vecs_destroy_at]
  post_keeps[OF keeps_vecs_uninitialized_copy_n] post_keeps[OF keeps_vecs_relocate]
  post_keeps[OF keeps_vecs_uninitialized_value_construct_n]
  post_keeps[OF keeps_vecs_uninitialized_default_construct_n]
  post_keeps[OF keeps_vecs_destroy_n] post_keeps[OF keeps_vecs_move_backward]
  post_keeps[OF keeps_vecs_Deallocate] post_keeps[OF keeps_vecs_RawMemory_dtor]
  post_keeps[OF keeps_vecs_assign_loop_ptr] post_keeps[OF keeps_vecs_assign_loop_index]
  post_Erase_loop

lemmas field_defs = rep_ok_def Size_def Capacity_def GetAddress_def
  set_data_def set_size_def set_vec_def RawMemory_ctor_def Allocate_def
  RawMemory_Swap_def RawMemory_move_assign_def
  Vector_begin_def Vector_end_def Vector_default_def RawMemory_default_def

lemma PushBack_keeps:
  "rep_ok s this \<Longrightarrow> rep_ok s r \<Longrightarrow> leaves (\<lambda>s'. rep_ok s' r) (PushBack T s this ctor v)"
  unfolding PushBack_def leaves_post
  by (auto intro!: post_rules simp: Let_def field_defs split: option.splits)

lemma EmplaceBack_keeps:
  "rep_ok s this \<Longrightarrow> rep_ok s r \<Longrightarrow>
   leaves (\<lambda>s'. rep_ok s' r) (dropping_result (EmplaceBack T s this ctor v))"
  unfolding EmplaceBack_def leaves_post dropping_result_def
  by (auto intro!: post_rules simp: Let_def field_defs split: option.splits)

lemma Emplace_keeps:
  "rep_ok s this \<Longrightarrow> rep_ok s r \<Longrightarrow>
   leaves (\<lambda>s'. rep_ok s' r) (dropping_result (Emplace T s this pos ctor v))"
  unfolding Emplace_def leaves_post dropping_result_def
  by (auto intro!: post_rules simp: Let_def field_defs split: option.splits)

lemma Reserve_keeps:
  "rep_ok s this \<Longrightarrow> rep_ok s r \<Longrightarrow> leaves (\<lambda>s'. rep_ok s' r) (Reserve T s this n)"
  unfolding Reserve_def leaves_post
  by (auto intro!: post_rules simp: Let_def field_defs split: option.splits)

lemma PopBack_keeps:
  "rep_ok s this \<Longrightarrow> rep_ok s r \<Longrightarrow> leaves (\<lambda>s'. rep_ok s' r) (PopBack s this)"
  unfolding PopBack_def leaves_post
  by (auto intro!: post_rules simp: Let_def field_defs split: option.splits)

lemma Swap_keeps:
  "rep_ok s this \<Longrightarrow> rep_ok s other \<Longrightarrow> rep_ok s r \<Longrightarrow> rep_ok (Swap s this other) r"
  unfolding Swap_def
  by (auto simp: Let_def field_defs)

lemma move_assign_keeps:
  "rep_ok s this \<Longrightarrow> rep_ok s rhs \<Longrightarrow> rep_ok s r \<Longrightarrow> rep_ok (move_assign s this rhs) r"
  unfolding move_assign_def
  by (auto simp: Let_def field_defs)

lemma Vector_move_keeps:
  "rep_ok s other \<Longrightarrow> rep_ok s r \<Longrightarrow> rep_ok (Vector_move s this other) r"
  unfolding Vector_move_def
  by (auto simp: Let_def field_defs)

lemma Vector_ctor_keeps:
  "rep_ok s r \<Longrightarrow> rep_ok (Vector_ctor s this) r"
  unfolding Vector_ctor_def
  by (auto simp: Let_def field_defs)

lemma Vector_sized_keeps:
  "rep_ok s r \<Longrightarrow> leaves (\<lambda>s'. rep_ok s' r) (Vector_sized T s this n)"
  unfolding Vector_sized_def leaves_post
  by (auto intro!: post_rules simp: Let_def field_defs split: option.splits)

lemma PushBack_copy_keeps:
  "rep_ok s this \<Longrightarrow> rep_ok s r \<Longrightarrow> leaves (\<lambda>s'. rep_ok s' r) (PushBack_copy T s this x)"
  using EmplaceBack_keeps[of s this r T Some x]
  by (simp add: PushBack_copy_def dropping_result_def)

lemma PushBack_move_keeps:
  "rep_ok s this \<Longrightarrow> rep_ok s r \<Longrightarrow> leaves (\<lambda>s'. rep_ok s' r) (PushBack_move T s this x)"
  using EmplaceBack_keeps[of s this r T Some x]
  by (simp add: PushBack_move_def dropping_result_def)

lemma Erase_keeps:
  "rep_ok s this \<Longrightarrow> rep_ok s r \<Longrightarrow> leaves (\<lambda>s'. rep_ok s' r) (dropping_result (Erase s this pos))"
  unfolding Erase_def leaves_post dropping_result_def
  by (auto intro!: post_rules simp: Let_def field_defs size_t_dec_def split: option.splits) arith

lemma Resize_keeps:
  "rep_ok s this \<Longrightarrow> rep_ok s r \<Longrightarrow> leaves (\<lambda>s'. rep_ok s' r) (Resize T s this n)"
  unfolding Resize_def Reserve_def leaves_post
  by (auto intro!: post_rules simp: Let_def field_defs split: option.splits)

lemma Vector_copy_keeps:
  "rep_ok s other \<Longrightarrow> rep_ok s r \<Longrightarrow> leaves (\<lambda>s'. rep_ok s' r) (Vector_copy s this other)"
  unfolding Vector_copy_def Vector_copy_local_def leaves_post
  by (auto intro!: post_rules simp: Let_def field_defs split: option.splits)

lemma copy_assign_keeps:
  "rep_ok s this \<Longrightarrow> rep_ok s rhs \<Longrightarrow> rep_ok s r \<Longrightarrow> leaves (\<lambda>s'. rep_ok s' r) (copy_assign s this rhs)"
  unfolding copy_assign_def Vector_copy_local_def Vector_dtor_local_def leaves_post
  by (auto intro!: post_rules simp: Let_def field_defs split: option.splits)

lemma leaves_all_ok: "(\<And>r. leaves (\<lambda>s'. rep_ok s' r) m) \<Longrightarrow> leaves all_ok m"
  by (auto simp: leaves_def all_ok_def split: sum.splits error.splits)

text \<open>
  C8. In a store where every array satisfies the invariant (\<open>size \<le> capacity\<close>, a
  null buffer having capacity 0), every public operation, whether it returns or
  leaves by an exception, ends in a store where every array satisfies it again:
  the constructors, the \<^verbatim>\<open>PushBack\<close> overloads, \<^verbatim>\<open>EmplaceBack\<close>, \<^verbatim>\<open>Emplace\<close>,
  \<^verbatim>\<open>Insert\<close>, \<^verbatim>\<open>Erase\<close>, \<^verbatim>\<open>Resize\<close>, \<^verbatim>\<open>Reserve\<close>, \<^verbatim>\<open>PopBack\<close>, copy and move
  assignment and \<^verbatim>\<open>Swap\<close>. In particular \<open>size \<le> capacity\<close> holds at entry and exit.
\<close>

theorem size_le_capacity_invariant:
  fixes s :: "'a store" and ctor :: "'b \<Rightarrow> 'a option"
  assumes "all_ok s"
  shows "all_ok (Vector_ctor s this) \<and>
         leaves all_ok (Vector_sized T s this n) \<and>
         leaves all_ok (Vector_copy s this other) \<and>
         all_ok (Vector_move s this other) \<and>
         leaves all_ok (PushBack_copy T s this x) \<and>
         leaves all_ok (PushBack_move T s this x) \<and>
         leaves all_ok (PushBack T s this ctor v) \<and>
         leaves all_ok (dropping_result (EmplaceBack T s this ctor v)) \<and>
         leaves all_ok (dropping_result (Emplace T s this pos ctor v)) \<and>
         leaves all_ok (dropping_result (Insert_copy T s this pos x)) \<and>
         leaves all_ok (dropping_result (Insert_move T s this pos x)) \<and>
         leaves all_ok (dropping_result (Erase s this pos)) \<and>
         leaves all_ok (Resize T s this n) \<and>
         leaves all_ok (Reserve T s this n) \<and>
         leaves all_ok (PopBack s this) \<and>
         leaves all_ok (copy_assign s this other) \<and>
         all_ok (move_assign s this other) \<and>
         all_ok (Swap s this other) \<and>
         (\<forall>r. Size s r \<le> Capacity s r)"
proof -
  have ok: "rep_ok s r" for r
    using assms by (simp add: all_ok_def)
  have "all_ok (Vector_ctor s this)" "all_ok (Vector_move s this other)"
    "all_ok (move_assign s this other)" "all_ok (Swap s this other)"
    unfolding all_ok_def
    by (intro allI Vector_ctor_keeps Vector_move_keeps move_assign_keeps Swap_keeps ok)+
  moreover have "leaves all_ok (Vector_sized T s this n)"
    "leaves all_ok (Vector_copy s this other)"
    "leaves all_ok (PushBack_copy T s this x)" "leaves all_ok (PushBack_move T s this x)"
    "leaves all_ok (PushBack T s this ctor v)"
    "leaves all_ok (dropping_result (EmplaceBack T s this ctor v))"
    "leaves all_ok (dropping_result (Emplace T s this pos ctor v))"
    "leaves all_ok (dropping_result (Erase s this pos))"
    "leaves all_ok (Resize T s this n)" "leaves all_ok (Reserve T s this n)"
    "leaves all_ok (PopBack s this)" "leaves all_ok (copy_assign s this other)"
    by (intro leaves_all_ok Vector_sized_keeps Vector_copy_keeps PushBack_copy_keeps
        PushBack_move_keeps PushBack_keeps EmplaceBack_keeps Emplace_keeps Erase_keeps
        Resize_keeps Reserve_keeps PopBack_keeps copy_assign_keeps ok)+
  moreover have "leaves all_ok (dropping_result (Insert_copy T s this pos x))"
    "leaves all_ok (dropping_result (Insert_move T s this pos x))"
    unfolding Insert_copy_def Insert_move_def
    by (intro leaves_all_ok Emplace_keeps ok)+
  moreover have "\<forall>r. Size s r \<le> Capacity s r"
    using ok by (simp add: rep_ok_def)
  ultimately show ?thesis
    by blast
qed

lemma all_ok_two_vectors: "all_ok two_vectors"
  by (simp add: all_ok_def rep_ok_def two_vectors_def Size_def Capacity_def GetAddress_def
      Vector_default_def RawMemory_default_def)

theorem size_le_capacity_invariant_witness:
  "all_ok two_vectors \<and>
   (\<exists>s'. PushBack_move int_T two_vectors 1 5 = Inr s' \<and> all_ok s' \<and> Size s' 1 = 4 \<and> Capacity s' 1 = 6) \<and>
   (\<exists>s'. PopBack two_vectors 0 = Inr s' \<and> all_ok s' \<and> Size s' 0 = 0 \<and> Capacity s' 0 = 4)"
proof -
  note inv = size_le_capacity_invariant[OF all_ok_two_vectors,
      where T = int_T and this = 1 and x = 5 and ctor = Some and v = 5 and other = 0
        and pos = "(2, 0)" and n = 0]
  note inv0 = size_le_capacity_invariant[OF all_ok_two_vectors,
      where T = int_T and this = 0 and x = 5 and ctor = Some and v = 5 and other = 1
        and pos = "(1, 0)" and n = 0]
  have "\<exists>s'. PushBack_move int_T two_vectors 1 5 = Inr s' \<and> Size s' 1 = 4 \<and> Capacity s' 1 = 6"
    by (simp add: exec_defs two_vectors_def eval_nat_numeral)
  then obtain s1 where s1: "PushBack_move int_T two_vectors 1 5 = Inr s1" "Size s1 1 = 4" "Capacity s1 1 = 6"
    by blast
  from inv have "leaves all_ok (PushBack_move int_T two_vectors 1 5)"
    by blast
  with s1 have a1: "all_ok s1"
    by (simp add: leaves_def)
  have "\<exists>s'. PopBack two_vectors 0 = Inr s' \<and> Size s' 0 = 0 \<and> Capacity s' 0 = 4"
    by (simp add: exec_defs two_vectors_def eval_nat_numeral)
  then obtain s2 where s2: "PopBack two_vectors 0 = Inr s2" "Size s2 0 = 0" "Capacity s2 0 = 4"
    by blast
  from inv0 have "leaves all_ok (PopBack two_vectors 0)"
    by blast
  with s2 have a2: "all_ok s2"
    by (simp add: leaves_def)
  from s1 a1 s2 a2 all_ok_two_vectors show ?thesis
    by blast
qed

section \<open>Reserve and Resize\<close>

lemma Reserve_ok:
  assumes wf: "wf_vector s this"
  shows "\<exists>s'. Reserve T s this n = Inr s' \<and> wf_vector s' this \<and>
           elems s' this = elems s this \<and> Size s' this = Size s this \<and>
           Capacity s' this = max n (Capacity s this)"
proof (cases "n \<le> Capacity s this")
  case True
  with wf show ?thesis
    by (simp add: Reserve_def max_def)
next
  case grow: False
  from wf have fresh: "blocks s (Suc (brk s)) = None"
    by (simp add: wf_vector_def heap_ok_def)
  from wf show ?thesis
  proof (cases rule: wf_vector_cases)
    case null
    with wf grow fresh show ?thesis
      by (auto simp: Reserve_def RawMemory_ctor_def Allocate_def relocate_eq RawMemory_Swap_def
          RawMemory_dtor_def Deallocate_def set_data_def set_vec_def
          Size_def Capacity_def GetAddress_def wf_vector_def heap_ok_def elems_def cells_def)
  next
    case (block cs)
    from wf block(1) have addr: "GetAddress s this \<le> brk s"
      using heap_ok_addr[of s "GetAddress s this" cs] by (auto simp: wf_vector_def)
    from block(4) have live: "Raw \<notin> set (take (Size s this) (drop 0 cs))"
      by simp
    show ?thesis
      using wf grow fresh block addr live
      by (auto simp: Reserve_def RawMemory_ctor_def Allocate_def relocate_eq RawMemory_Swap_def
          RawMemory_dtor_def Deallocate_def set_data_def set_vec_def
          Size_def Capacity_def GetAddress_def wf_vector_def heap_ok_def elems_def cells_def
          uninitialized_copy_n_the destroy_n_the)
  qed
qed

lemma Resize_shrink:
  assumes wf: "wf_vector s this" and lt: "n < Size s this"
  shows "\<exists>s'. Resize T s this n = Inr s' \<and> wf_vector s' this \<and>
           elems s' this = take n (elems s this) \<and> Size s' this = n \<and>
           Capacity s' this = Capacity s this"
  using wf
proof (cases rule: wf_vector_cases)
  case null
  with lt show ?thesis by simp
next
  case (block cs)
  from wf block(1) have addr: "GetAddress s this \<le> brk s"
    using heap_ok_addr[of s "GetAddress s this" cs] by (auto simp: wf_vector_def)
  have live: "Raw \<notin> set (take (Size s this - n) (drop n cs))"
    using live_take_drop[OF block(4), of n "Size s this - n"] lt by simp
  have live': "Raw \<notin> set (take n cs)"
    using live_take_drop[OF block(4), of 0 n] lt by simp
  show ?thesis
    using wf lt block addr live live'
    by (auto simp: Resize_def set_size_def set_vec_def
        Size_def Capacity_def GetAddress_def wf_vector_def heap_ok_def elems_def cells_def
        destroy_n_the min_def)
qed

lemma default_cell_live: "default_cell T \<noteq> Raw"
  by (simp add: default_cell_def split: option.splits)

lemma Resize_grow:
  assumes wf: "wf_vector s this" and ge: "Size s this \<le> n"
  shows "\<exists>s'. Resize T s this n = Inr s' \<and> wf_vector s' this \<and>
           elems s' this = elems s this @ replicate (n - Size s this) (default_cell T) \<and>
           Size s' this = n \<and> Capacity s' this = max n (Capacity s this)"
proof -
  from Reserve_ok[OF wf, of T n] obtain s1 where
    s1: "Reserve T s this n = Inr s1" "wf_vector s1 this" "elems s1 this = elems s this"
      "Size s1 this = Size s this" "Capacity s1 this = max n (Capacity s this)"
    by blast
  from s1(2) show ?thesis
  proof (cases rule: wf_vector_cases)
    case null
    with s1(5) ge have "n = 0" "Size s this = 0" by simp_all
    with s1 null ge show ?thesis
      by (auto simp: Resize_def set_size_def set_vec_def Size_def Capacity_def GetAddress_def
          wf_vector_def heap_ok_def elems_def cells_def)
  next
    case (block cs)
    have cap: "n \<le> length cs"
      using block(2) s1(5) by simp
    let ?b = "take (Size s this) cs @ replicate (n - Size s this) (default_cell T) @ drop (Size s this + (n - Size s this)) cs"
    let ?s2 = "s1\<lparr>blocks := (blocks s1)(GetAddress s1 this \<mapsto> ?b)\<rparr>"
    have st: "uninitialized_default_construct_n T s1 (GetAddress s1 this, Size s1 this) (n - Size s1 this) = Inr ?s2"
      using block(1) cap ge s1(4)
      by (simp add: uninitialized_default_construct_n_blocks default_cell_def)
    have run: "Resize T s this n = Inr (set_size ?s2 this n)"
      using ge s1(1) st by (simp add: Resize_def)
    have el1: "elems s this = take (Size s this) cs"
      using s1(3,4) block(1) by (simp add: elems_def cells_def)
    have hk: "heap_ok (set_size ?s2 this n)"
      using s1(2) block(1,5) heap_ok_addr[of s1 "GetAddress s1 this" cs]
      by (auto simp: wf_vector_def heap_ok_def)
    have bl: "blocks (set_size ?s2 this n) (GetAddress (set_size ?s2 this n) this) = Some ?b"
      by simp
    have tk: "take n ?b = take (Size s this) cs @ replicate (n - Size s this) (default_cell T)"
      using cap ge by simp
    have "wf_vector (set_size ?s2 this n) this" "elems (set_size ?s2 this n) this = take (Size (set_size ?s2 this n) this) ?b"
    proof (rule wf_vector_block[OF hk bl])
      show "length ?b = Capacity (set_size ?s2 this n) this"
        using cap ge block(2) by simp
      show "Size (set_size ?s2 this n) this \<le> Capacity (set_size ?s2 this n) this"
        using cap block(2) by simp
      show "Raw \<notin> set (take (Size (set_size ?s2 this n) this) ?b)"
        using tk block(4) s1(4) default_cell_live[of T] by auto
    qed (rule wf_vector_block[OF hk bl], use cap ge block tk s1 default_cell_live[of T] in auto)
    then show ?thesis
      using run tk el1 s1(5) by (intro exI[of _ "set_size ?s2 this n"]) simp
  qed
qed

text \<open>
  What \<^verbatim>\<open>Resize\<close> does for every element type: it returns, the size becomes
  \<open>n\<close>, the first \<open>min n size\<close> elements are unchanged, and when it grows the
  \<open>n - size\<close> new elements are default-initialised cells: the default-constructed
  value for a class type, an indeterminate value for a scalar type.
\<close>

lemma Resize_ok:
  assumes "wf_vector s this"
  shows "\<exists>s'. Resize T s this n = Inr s' \<and> wf_vector s' this \<and> Size s' this = n \<and>
           elems s' this = take n (elems s this) @ replicate (n - Size s this) (default_cell T)"
proof (cases "n < Size s this")
  case True
  from Resize_shrink[OF assms True, of T] True show ?thesis
    by auto
next
  case False
  then have "take n (elems s this) = elems s this"
    by (simp add: elems_def)
  with Resize_grow[OF assms, of n T] False show ?thesis
    by auto
qed

section \<open>Insert and Erase\<close>

lemma move_backward_n_blocks:
  "blocks s a = Some cs \<Longrightarrow> e \<le> length cs \<Longrightarrow> f + m \<le> e \<Longrightarrow>
   Raw \<notin> set (take m (drop f cs)) \<Longrightarrow>
   move_backward_n s (a, f) m (a, e) =
     Inr (s\<lparr>blocks := (blocks s)(a \<mapsto> take (e - m) cs @ take m (drop f cs) @ drop e cs)\<rparr>)"
proof (induction m arbitrary: s cs e)
  case 0
  then have "(blocks s)(a \<mapsto> cs) = blocks s"
    by (simp add: fun_upd_idem)
  then show ?case by simp
next
  case (Suc m)
  let ?c = "cs ! (f + m)"
  let ?cs' = "cs[e - 1 := ?c]"
  let ?s1 = "s\<lparr>blocks := (blocks s)(a \<mapsto> ?cs')\<rparr>"
  have tk: "take (Suc m) (drop f cs) = take m (drop f cs) @ [?c]"
    using Suc.prems by (simp add: take_Suc_conv_app_nth)
  with Suc.prems(4) have live: "?c \<noteq> Raw" and live': "Raw \<notin> set (take m (drop f cs))"
    by auto
  have e: "0 < e" "e - 1 < length cs" "f + m < length cs"
    using Suc.prems by simp_all
  have ld: "load s (a, f + m) = Inr ?c"
    using Suc.prems live e by (simp add: load_block)
  have pt: "assign_at s (a, e - 1) ?c = Inr ?s1"
    using Suc.prems e by (simp add: assign_at_def put_block)
  have same: "take m (drop f ?cs') = take m (drop f cs)"
    using Suc.prems by (simp add: drop_update_swap)
  have rest: "move_backward_n ?s1 (a, f) m (a, e - 1) =
      Inr (?s1\<lparr>blocks := (blocks ?s1)(a \<mapsto>
        take (e - 1 - m) ?cs' @ take m (drop f ?cs') @ drop (e - 1) ?cs')\<rparr>)"
    by (rule Suc.IH) (use Suc.prems live' same in simp_all)
  have l3: "drop (e - 1) ?cs' = ?c # drop e cs"
    using e drop_update_same[of "e - 1" cs ?c] by simp
  have l1: "take (e - 1 - m) ?cs' = take (e - Suc m) cs"
    using e by simp
  have "move_backward_n s (a, f) (Suc m) (a, e) = move_backward_n ?s1 (a, f) m (a, e - 1)"
    using ld pt e by simp
  then show ?case
    using rest l1 l3 same tk by (simp, intro store.equality) (simp_all add: fun_upd_def)
qed

lemma Erase_loop_blocks:
  "blocks s b = Some cs \<Longrightarrow> i + 1 + k \<le> length cs \<Longrightarrow>
   Raw \<notin> set (take k (drop (i + 1) cs)) \<Longrightarrow>
   Erase_loop s b i (i + 1) (i + 1 + k) =
     Inr (s\<lparr>blocks := (blocks s)(b \<mapsto> take i cs @ take k (drop (i + 1) cs) @ drop (i + k) cs)\<rparr>)"
proof (induction k arbitrary: s cs i)
  case 0
  then have "(blocks s)(b \<mapsto> cs) = blocks s"
    by (simp add: fun_upd_idem)
  then show ?case
    by (subst Erase_loop.simps) simp
next
  case (Suc k)
  let ?c = "cs ! (i + 1)"
  let ?cs' = "cs[i := ?c]"
  let ?s1 = "s\<lparr>blocks := (blocks s)(b \<mapsto> ?cs')\<rparr>"
  have tk: "take (Suc k) (drop (i + 1) cs) = ?c # take k (drop (i + 2) cs)"
    using Suc.prems by (simp add: take_Suc_conv_app_nth Cons_nth_drop_Suc[symmetric])
  with Suc.prems(3) have live: "?c \<noteq> Raw" and live': "Raw \<notin> set (take k (drop (i + 2) cs))"
    by auto
  have ld: "load s (b, i + 1) = Inr ?c"
    using Suc.prems live by (simp add: load_block)
  have pt: "assign_at s (b, i) ?c = Inr ?s1"
    using Suc.prems by (simp add: assign_at_def put_block)
  have rest: "Erase_loop ?s1 b (Suc i) (Suc i + 1) (Suc i + 1 + k) =
      Inr (?s1\<lparr>blocks := (blocks ?s1)(b \<mapsto>
        take (Suc i) ?cs' @ take k (drop (Suc i + 1) ?cs') @ drop (Suc i + k) ?cs')\<rparr>)"
    by (rule Suc.IH) (use Suc.prems live' in simp_all)
  have l1: "take (Suc i) ?cs' = take i cs @ [?c]"
    using Suc.prems by (simp add: take_Suc_conv_app_nth)
  have "Erase_loop s b i (i + 1) (i + 1 + Suc k) = Erase_loop ?s1 b (Suc i) (Suc i + 1) (Suc i + 1 + k)"
    using ld pt by (subst Erase_loop.simps) simp
  then show ?case
    using rest l1 tk by (simp, intro store.equality) (simp_all add: fun_upd_def)
qed

lemma Erase_ok:
  fixes s :: "'a store"
  assumes wf: "wf_vector s this" and d: "d < Size s this"
  shows "\<exists>s'. Erase s this (GetAddress s this, d) = Inr (s', (GetAddress s' this, d)) \<and>
           wf_vector s' this \<and> Size s' this = Size s this - 1 \<and>
           elems s' this = take d (elems s this) @ drop (Suc d) (elems s this) \<and>
           Capacity s' this = Capacity s this \<and> GetAddress s' this = GetAddress s this"
  using wf
proof (cases rule: wf_vector_cases)
  case null
  with d show ?thesis by simp
next
  case (block cs)
  let ?n = "Size s this" and ?b = "GetAddress s this"
  let ?k = "?n - Suc d"
  let ?cs1 = "cs[d := Raw]"
  let ?s1 = "s\<lparr>blocks := (blocks s)(?b \<mapsto> ?cs1)\<rparr>"
  have dl: "d < length cs" using d block by simp
  have "cs ! d \<in> set (take ?n cs)"
    using d dl by (metis in_set_conv_nth length_take min_less_iff_conj nth_take)
  with block(4) have live_d: "cs ! d \<noteq> Raw" by metis
  have st1: "destroy_at s (?b, d) = Inr ?s1"
    using block(1) dl live_d by (simp add: destroy_at_block)
  have same: "drop (Suc d) ?cs1 = drop (Suc d) cs"
    by simp
  have live: "Raw \<notin> set (take ?k (drop (d + 1) ?cs1))"
    using live_take_drop[OF block(4), of "Suc d" ?k] d by simp
  let ?cs2 = "take d ?cs1 @ take ?k (drop (d + 1) ?cs1) @ drop (d + ?k) ?cs1"
  let ?s2 = "?s1\<lparr>blocks := (blocks ?s1)(?b \<mapsto> ?cs2)\<rparr>"
  have "Erase_loop ?s1 ?b d (d + 1) (d + 1 + ?k) = Inr ?s2"
    using live d block by (intro Erase_loop_blocks) simp_all
  moreover have "d + 1 + ?k = ?n" using d by simp
  ultimately have st2: "Erase_loop ?s1 ?b d (d + 1) ?n = Inr ?s2"
    by simp
  let ?s' = "set_size ?s2 this (?n - 1)"
  have run: "Erase s this (?b, d) = Inr (?s', (?b, d))"
    using st1 st2 d by (simp add: Erase_def Vector_begin_def Vector_end_def size_t_dec_def)
  have hk: "heap_ok ?s'"
    using wf block(1,5) heap_ok_addr[of s ?b cs]
    by (auto simp: wf_vector_def heap_ok_def)
  have bl: "blocks ?s' (GetAddress ?s' this) = Some ?cs2"
    by simp
  have tk: "take (?n - 1) ?cs2 = take d cs @ take ?k (drop (Suc d) cs)"
    using d dl block by simp
  have el: "elems s this = take ?n cs"
    using block(1) by (simp add: elems_def cells_def)
  have dr: "drop (Suc d) (take ?n cs) = take ?k (drop (Suc d) cs)"
    by (simp add: drop_take)
  have lv: "Raw \<notin> set (take d cs @ take ?k (drop (Suc d) cs))"
    using live_take_drop[OF block(4), of 0 d] live_take_drop[OF block(4), of "Suc d" ?k] d
    by simp
  have w: "wf_vector ?s' this" and e': "elems ?s' this = take (Size ?s' this) ?cs2"
    by (rule wf_vector_block[OF hk bl]; use d dl block tk lv in simp)+
  have "elems ?s' this = take d (elems s this) @ drop (Suc d) (elems s this)"
    using e' tk el dr d by (simp add: min_def)
  with w run show ?thesis
    by (intro exI[of _ ?s']) simp
qed

lemma Emplace_in_place:
  fixes s :: "'a store"
  assumes wf: "wf_vector s this" and d: "d < Size s this" and room: "Size s this \<noteq> Capacity s this"
    and c: "ctor args = Some x"
  shows "\<exists>s'. Emplace T s this (GetAddress s this, d) ctor args = Inr (s', (GetAddress s' this, d)) \<and>
           wf_vector s' this \<and> Size s' this = Size s this + 1 \<and>
           elems s' this = take d (elems s this) @ [Val x] @ drop d (elems s this) \<and>
           Capacity s' this = Capacity s this \<and> GetAddress s' this = GetAddress s this"
  using wf
proof (cases rule: wf_vector_cases)
  case null
  with d show ?thesis by simp
next
  case (block cs)
  let ?n = "Size s this" and ?b = "GetAddress s this"
  let ?m = "?n - 1 - d"
  have n: "0 < ?n" "?n < length cs" "d < length cs" "?n - 1 < length cs"
    using d room block by simp_all
  let ?c = "cs ! (?n - 1)"
  have "?c \<in> set (take ?n cs)"
    using n by (metis diff_less in_set_conv_nth length_take less_numeral_extra(1) min_less_iff_conj nth_take)
  with block(4) have live_c: "?c \<noteq> Raw" by metis
  have ld: "load s (?b, ?n - 1) = Inr ?c"
    using block(1) n live_c by (simp add: load_block)
  let ?cs1 = "cs[?n := ?c]"
  let ?s1 = "s\<lparr>blocks := (blocks s)(?b \<mapsto> ?cs1)\<rparr>"
  have st1: "construct_at s (?b, ?n) ?c = Inr ?s1"
    using block(1) n by (simp add: construct_at_def put_block)
  have src: "take ?m (drop d ?cs1) = take ?m (drop d cs)"
    using d by (simp add: drop_update_swap)
  have live: "Raw \<notin> set (take ?m (drop d ?cs1))"
    using live_take_drop[OF block(4), of d ?m] d src by simp
  let ?cs2 = "take (?n - ?m) ?cs1 @ take ?m (drop d ?cs1) @ drop ?n ?cs1"
  let ?s2 = "?s1\<lparr>blocks := (blocks ?s1)(?b \<mapsto> ?cs2)\<rparr>"
  have "move_backward_n ?s1 (?b, d) ?m (?b, ?n) = Inr ?s2"
    using live n d by (intro move_backward_n_blocks) simp_all
  then have st2: "move_backward ?s1 (?b, d) (?b, ?n - 1) (?b, ?n) = Inr ?s2"
    using d by (simp add: move_backward_def)
  let ?cs3 = "?cs2[d := Val x]"
  let ?s3 = "?s2\<lparr>blocks := (blocks ?s2)(?b \<mapsto> ?cs3)\<rparr>"
  have len2: "length ?cs2 = length cs"
    using n d by simp
  have st3: "assign_at ?s2 (?b, d) (Val x) = Inr ?s3"
    using len2 n by (simp add: assign_at_def put_block)
  let ?s' = "set_size ?s3 this (?n + 1)"
  have idx: "(RawMemory_index (m_data (vecs s this)) d :: 'a error + ptr) = Inr (?b, d)"
    using n block(2) by (simp add: RawMemory_index_def Capacity_def GetAddress_def)
  have run: "Emplace T s this (?b, d) ctor args = Inr (?s', (?b, d))"
    using d room c n ld st1 st2 st3 idx
    by (simp add: Emplace_def Vector_begin_def Vector_end_def)
  have hk: "heap_ok ?s'"
    using wf block(1,5) heap_ok_addr[of s ?b cs]
    by (auto simp: wf_vector_def heap_ok_def)
  have bl: "blocks ?s' (GetAddress ?s' this) = Some ?cs3"
    by simp
  have nm: "?n - ?m = Suc d" using d by simp
  have t1: "take (Suc d) ?cs1 = take d cs @ [cs ! d]"
    using n d by (simp add: take_Suc_conv_app_nth)
  have t3: "drop ?n ?cs1 = ?c # drop (Suc ?n) cs"
    using n by (simp add: drop_update_same)
  have cs3: "?cs3 = take d cs @ [Val x] @ take ?m (drop d cs) @ [?c] @ drop (Suc ?n) cs"
    using nm t1 t3 src n d by (simp add: list_update_append)
  have mid: "take ?m (drop d cs) @ [?c] = take (?n - d) (drop d cs)"
  proof -
    have "take (Suc ?m) (drop d cs) = take ?m (drop d cs) @ [drop d cs ! ?m]"
      using n d by (intro take_Suc_conv_app_nth) simp
    moreover have "drop d cs ! ?m = ?c" using n d by simp
    moreover have "Suc ?m = ?n - d" using d by simp
    ultimately show ?thesis by simp
  qed
  have tk: "take (?n + 1) ?cs3 = take d cs @ [Val x] @ take (?n - d) (drop d cs)"
  proof -
    have "?cs3 = (take d cs @ [Val x] @ take (?n - d) (drop d cs)) @ drop (Suc ?n) cs"
      using cs3 mid by (metis append.assoc)
    moreover have "length (take d cs @ [Val x] @ take (?n - d) (drop d cs)) = ?n + 1"
      using n d by simp
    ultimately show ?thesis
      by (metis append_eq_conv_conj)
  qed
  have el: "elems s this = take ?n cs"
    using block(1) by (simp add: elems_def cells_def)
  have dr: "drop d (take ?n cs) = take (?n - d) (drop d cs)"
    by (simp add: drop_take)
  have lv: "Raw \<notin> set (take d cs @ [Val x] @ take (?n - d) (drop d cs))"
    using live_take_drop[OF block(4), of 0 d] live_take_drop[OF block(4), of d "?n - d"] d
    by simp
  have w: "wf_vector ?s' this" and e': "elems ?s' this = take (Size ?s' this) ?cs3"
    by (rule wf_vector_block[OF hk bl]; use n len2 block(2) tk lv in simp)+
  have "elems ?s' this = take d (elems s this) @ [Val x] @ drop d (elems s this)"
    using e' tk el dr d by (simp add: min_def)
  with w run show ?thesis
    by (intro exI[of _ ?s']) simp
qed

lemma Emplace_empty_in_place:
  fixes s :: "'a store"
  assumes wf: "wf_vector s this" and z: "Size s this = 0" and room: "Size s this \<noteq> Capacity s this"
    and c: "ctor args = Some x"
  shows "\<exists>s'. Emplace T s this (GetAddress s this, 0) ctor args = Inr (s', (GetAddress s' this, 0)) \<and>
           wf_vector s' this \<and> Size s' this = Size s this + 1 \<and>
           elems s' this = take 0 (elems s this) @ [Val x] @ drop 0 (elems s this) \<and>
           Capacity s' this = Capacity s this \<and> GetAddress s' this = GetAddress s this"
  using wf
proof (cases rule: wf_vector_cases)
  case null
  with z room show ?thesis by simp
next
  case (block cs)
  from wf block(1) have addr: "GetAddress s this \<le> brk s"
    using heap_ok_addr[of s "GetAddress s this" cs] by (auto simp: wf_vector_def)
  show ?thesis
    using wf z room c block addr
    by (auto simp: Emplace_def Vector_begin_def Vector_end_def construct_at_def put_def
        set_size_def set_vec_def Size_def Capacity_def GetAddress_def wf_vector_def heap_ok_def
        elems_def cells_def take_Suc_conv_app_nth)
qed

lemma Emplace_grow:
  fixes s :: "'a store"
  assumes wf: "wf_vector s this" and d: "d \<le> Size s this" and full: "Size s this = Capacity s this"
    and c: "ctor args = Some x"
  shows "\<exists>s'. Emplace T s this (GetAddress s this, d) ctor args = Inr (s', (GetAddress s' this, d)) \<and>
           wf_vector s' this \<and> Size s' this = Size s this + 1 \<and>
           elems s' this = take d (elems s this) @ [Val x] @ drop d (elems s this) \<and>
           Capacity s' this = max 1 (2 * Capacity s this)"
proof -
  from wf have fresh: "blocks s (Suc (brk s)) = None"
    by (simp add: wf_vector_def heap_ok_def)
  from wf show ?thesis
  proof (cases rule: wf_vector_cases)
    case null
    with wf d full c fresh show ?thesis
      by (auto simp: Emplace_def Vector_begin_def Vector_end_def RawMemory_ctor_def Allocate_def
          RawMemory_plus_def construct_at_def put_def relocate_eq RawMemory_Swap_def
          RawMemory_dtor_def Deallocate_def set_data_def set_size_def set_vec_def
          Size_def Capacity_def GetAddress_def wf_vector_def heap_ok_def elems_def cells_def)
  next
    case (block cs)
    let ?n = "Size s this" and ?b = "GetAddress s this" and ?a = "Suc (brk s)"
    let ?N = "if ?n = 0 then 1 else ?n * 2"
    have len: "length cs = ?n" using block full by simp
    from wf block(1) have addr: "?b \<le> brk s"
      using heap_ok_addr[of s ?b cs] by (auto simp: wf_vector_def)
    then have ab: "?a \<noteq> ?b" by simp
    have liveall: "Raw \<notin> set cs" using block(4) len by simp
    have dN: "d < ?N" "Suc ?n \<le> ?N" using d by (auto split: if_splits)
    have l1: "Raw \<notin> set (take d cs)" and l2: "Raw \<notin> set (take (?n - d) (drop d cs))"
      using liveall by (auto dest: in_set_takeD in_set_dropD)
    have mid: "take (Suc 0) (drop d ((replicate m Raw)[d := Val x])) = [Val x]" if "d < m" for m
      using that by (simp add: drop_update_same)
    show ?thesis
      using wf c block len addr ab fresh full d dN l1 l2 liveall
      by (auto simp: Emplace_def Vector_begin_def Vector_end_def RawMemory_ctor_def Allocate_def
          RawMemory_plus_def construct_at_def put_def relocate_eq RawMemory_Swap_def
          RawMemory_dtor_def Deallocate_def set_data_def set_size_def set_vec_def
          Size_def Capacity_def GetAddress_def wf_vector_def heap_ok_def elems_def cells_def
          uninitialized_copy_n_the destroy_n_the mid min_def)
  qed
qed

lemma Emplace_ok:
  fixes s :: "'a store"
  assumes wf: "wf_vector s this" and d: "d \<le> Size s this"
    and pos: "d < Size s this \<or> Size s this = Capacity s this \<or> Size s this = 0"
    and c: "ctor args = Some x"
  shows "\<exists>s'. Emplace T s this (GetAddress s this, d) ctor args = Inr (s', (GetAddress s' this, d)) \<and>
           wf_vector s' this \<and> Size s' this = Size s this + 1 \<and>
           elems s' this = take d (elems s this) @ [Val x] @ drop d (elems s this)"
proof (cases "Size s this = Capacity s this")
  case True
  from Emplace_grow[where T=T and ctor=ctor and args=args, OF wf d True c] show ?thesis
    by blast
next
  case room: False
  show ?thesis
  proof (cases "d < Size s this")
    case True
    from Emplace_in_place[where T=T and ctor=ctor and args=args, OF wf True room c] show ?thesis
      by blast
  next
    case False
    with pos room d have z: "Size s this = 0" "d = 0"
      by auto
    from Emplace_empty_in_place[where T=T and ctor=ctor and args=args, OF wf z(1) room c] z(2)
    show ?thesis
      by blast
  qed
qed

text \<open>
  The round trip of C2 where the code has defined behaviour: at every position before
  \<^verbatim>\<open>end()\<close>, and at \<^verbatim>\<open>end()\<close> of an array that is full or empty, \<^verbatim>\<open>Insert\<close> returns
  the position of the new element, and \<^verbatim>\<open>Erase\<close> at that position restores the
  size and the elements.
\<close>

lemma insert_erase_round_trip:
  fixes s :: "'a store"
  assumes wf: "wf_vector s this" and d: "d \<le> Size s this"
    and pos: "d < Size s this \<or> Size s this = Capacity s this \<or> Size s this = 0"
  shows "\<exists>s1 p s2 q. Insert_copy T s this (GetAddress s this, d) x = Inr (s1, p) \<and>
           Insert_move T s this (GetAddress s this, d) x = Inr (s1, p) \<and>
           p = (GetAddress s1 this, d) \<and>
           elems s1 this = take d (elems s this) @ [Val x] @ drop d (elems s this) \<and>
           Erase s1 this p = Inr (s2, q) \<and>
           Size s2 this = Size s this \<and> elems s2 this = elems s this"
proof -
  have cx: "Some x = Some x" by simp
  from Emplace_ok[where T=T and ctor=Some and args=x, OF wf d pos cx] obtain s1 where
    s1: "Emplace T s this (GetAddress s this, d) Some x = Inr (s1, (GetAddress s1 this, d))"
      "wf_vector s1 this" "Size s1 this = Size s this + 1"
      "elems s1 this = take d (elems s this) @ [Val x] @ drop d (elems s this)"
    by blast
  have d1: "d < Size s1 this" using d s1(3) by simp
  from Erase_ok[OF s1(2) d1] obtain s2 where
    s2: "Erase s1 this (GetAddress s1 this, d) = Inr (s2, (GetAddress s2 this, d))"
      "Size s2 this = Size s1 this - 1"
      "elems s2 this = take d (elems s1 this) @ drop (Suc d) (elems s1 this)"
    by blast
  have len: "length (elems s this) = Size s this"
    using wf by (cases rule: wf_vector_cases) (simp_all add: elems_def cells_def)
  then have "take d (elems s1 this) = take d (elems s this)"
    "drop (Suc d) (elems s1 this) = drop d (elems s this)"
    using d s1(4) by simp_all
  with s2(3) have "elems s2 this = elems s this"
    by simp
  with s1 s2 show ?thesis
    by (auto simp: Insert_copy_def Insert_move_def)
qed


section \<open>Runs on concrete stores\<close>

lemmas run_defs = exec_defs two_vectors_def Erase_loop.simps assign_loop_ptr.simps
  assign_loop_index.simps copy_assign_def move_assign_def Vector_sized_def Vector_copy_def
  Vector_copy_local_def Vector_dtor_local_def eval_nat_numeral

text \<open>
  C9, as stated, fails in its capacity progression: the three appends do not take the
  capacity through 1, 1, 2, 4, since a default-constructed array has capacity 0.
\<close>

theorem scenario_capacity_progression_counterexample:
  "\<not> (\<exists>s1 s2 s3.
        PushBack_move int_T empty_store 0 1 = Inr s1 \<and>
        PushBack_move int_T s1 0 2 = Inr s2 \<and>
        PushBack_move int_T s2 0 3 = Inr s3 \<and>
        map (\<lambda>s. Capacity s 0) [empty_store, s1, s2, s3] = [1, 1, 2, 4])"
  by (simp add: empty_store_def Vector_default_def RawMemory_default_def Capacity_def)

text \<open>
  C9, amended. From an empty array of integers, \<^verbatim>\<open>PushBack(1)\<close>, \<^verbatim>\<open>PushBack(2)\<close>,
  \<^verbatim>\<open>PushBack(3)\<close> give the sequence \<open>[1, 2, 3]\<close> with size 3 and capacity 4, the
  capacity going through 0, 1, 2, 4; \<^verbatim>\<open>Insert(begin() + 1, 9)\<close> then gives
  \<open>[1, 9, 2, 3]\<close>, \<^verbatim>\<open>Erase(begin() + 2)\<close> gives \<open>[1, 9, 3]\<close>, and \<^verbatim>\<open>PopBack()\<close> gives
  \<open>[1, 9]\<close>.
\<close>

theorem scenario:
  "\<exists>s1 s2 s3 s4 s5 s6 p q.
     PushBack_move int_T empty_store 0 1 = Inr s1 \<and>
     PushBack_move int_T s1 0 2 = Inr s2 \<and>
     PushBack_move int_T s2 0 3 = Inr s3 \<and>
     elems s3 0 = [Val 1, Val 2, Val 3] \<and> Size s3 0 = 3 \<and> Capacity s3 0 = 4 \<and>
     map (\<lambda>s. Capacity s 0) [empty_store, s1, s2, s3] = [0, 1, 2, 4] \<and>
     Insert_move int_T s3 0 (fst (Vector_begin s3 0), snd (Vector_begin s3 0) + 1) 9 = Inr (s4, p) \<and>
     elems s4 0 = [Val 1, Val 9, Val 2, Val 3] \<and> Size s4 0 = 4 \<and>
     Erase s4 0 (fst (Vector_begin s4 0), snd (Vector_begin s4 0) + 2) = Inr (s5, q) \<and>
     elems s5 0 = [Val 1, Val 9, Val 3] \<and> Size s5 0 = 3 \<and>
     PopBack s5 0 = Inr s6 \<and>
     elems s6 0 = [Val 1, Val 9] \<and> Size s6 0 = 2"
  by (simp add: run_defs)

text \<open>
  C10. Copy-assigning an array to itself returns the store it was given: size,
  capacity, buffer address and elements of the array, and everything else, are
  unchanged.
\<close>

theorem self_copy_assign: "copy_assign s this this = Inr s"
  by (simp add: copy_assign_def)

text \<open>
  Move assignment frees nothing and destroys nothing: the blocks of the heap are the
  same after it, whatever the two arrays are.
\<close>

lemma move_assign_frees_nothing: "blocks (move_assign s this rhs) = blocks s"
  by (simp add: move_assign_def set_data_def set_size_def set_vec_def Let_def split: prod.splits)

text \<open>
  C3 at a concrete input. Array 0 owns block 1 (holding \<open>[1]\<close>), array 1 owns block 2.
  After \<^verbatim>\<open>v0 = std::move(v1)\<close> array 0 has adopted block 2 with its size and array 1
  is empty, but block 1 is still allocated with its element still alive, and no
  array refers to it any more: the destination's buffer and elements were not
  released.
\<close>

theorem move_assign_leaks:
  "RawMemory_move_assign (m_data (vecs two_vectors 0)) (m_data (vecs two_vectors 1)) =
     (\<lparr>m_buffer = 2, m_capacity = 3\<rparr>, \<lparr>m_buffer = 0, m_capacity = 0\<rparr>) \<and>
   GetAddress (move_assign two_vectors 0 1) 0 = 2 \<and>
   Capacity (move_assign two_vectors 0 1) 0 = 3 \<and>
   Size (move_assign two_vectors 0 1) 0 = 3 \<and>
   elems (move_assign two_vectors 0 1) 0 = [Val 7, Val 8, Val 9] \<and>
   Size (move_assign two_vectors 0 1) 1 = 0 \<and>
   blocks (move_assign two_vectors 0 1) 1 = Some [Val 1, Raw, Raw, Raw] \<and>
   (\<forall>r. GetAddress (move_assign two_vectors 0 1) r \<noteq> 1)"
  by (simp add: run_defs)

text \<open>
  C6 at a concrete input. \<^verbatim>\<open>Resize(3)\<close> on the array of integers \<open>[1]\<close> returns with
  size 3 and the first element unchanged, but the two new elements are
  default-initialised, which for \<^verbatim>\<open>int\<close> leaves their values indeterminate; the
  constructor \<^verbatim>\<open>Vector(2)\<close>, which value-initialises, gives \<open>[0, 0]\<close>.
\<close>

theorem resize_default_initialises:
  "(\<exists>s'. Resize int_T two_vectors 0 3 = Inr s' \<and> Size s' 0 = 3 \<and>
      elems s' 0 = [Val 1, Indet, Indet] \<and> at s' 0 1 = Inr Indet \<and> at s' 0 2 = Inr Indet) \<and>
   (\<exists>s'. Vector_sized int_T empty_store 0 2 = Inr s' \<and> elems s' 0 = [Val 0, Val 0])"
  by (simp add: run_defs)

text \<open>
  C2 at a concrete input. On the array \<open>[1]\<close> of capacity 4, \<^verbatim>\<open>Insert(end(), 5)\<close> takes
  the in-place branch of \<^verbatim>\<open>Emplace\<close> and hands \<^verbatim>\<open>std::move_backward\<close> the range from
  \<^verbatim>\<open>end()\<close> to \<^verbatim>\<open>end() - 1\<close>, which is not a valid range: the insertion has undefined
  behaviour, and no round trip follows.
\<close>

theorem insert_at_end_in_place_undefined:
  "Size two_vectors 0 = 1 \<and> Capacity two_vectors 0 = 4 \<and>
   Insert_copy int_T two_vectors 0 (Vector_end two_vectors 0) 5 = Inl UB \<and>
   Insert_move int_T two_vectors 0 (Vector_end two_vectors 0) 5 = Inl UB"
  by (simp add: run_defs)

text \<open>
  The round trip at the other positions of the same store: at \<^verbatim>\<open>begin()\<close> of the array
  \<open>[1]\<close>, and at \<^verbatim>\<open>end()\<close> of the full array \<open>[7, 8, 9]\<close>, where \<^verbatim>\<open>Emplace\<close> reallocates.
\<close>

lemma insert_erase_concrete:
  "(\<exists>s1 p s2 q. Insert_copy int_T two_vectors 0 (Vector_begin two_vectors 0) 5 = Inr (s1, p) \<and>
      elems s1 0 = [Val 5, Val 1] \<and> p = Vector_begin s1 0 \<and>
      Erase s1 0 p = Inr (s2, q) \<and> elems s2 0 = elems two_vectors 0 \<and> Size s2 0 = Size two_vectors 0) \<and>
   (\<exists>s1 p s2 q. Insert_copy int_T two_vectors 1 (Vector_end two_vectors 1) 5 = Inr (s1, p) \<and>
      elems s1 1 = [Val 7, Val 8, Val 9, Val 5] \<and>
      Erase s1 1 p = Inr (s2, q) \<and> elems s2 1 = elems two_vectors 1 \<and> Size s2 1 = Size two_vectors 1)"
  by (simp add: run_defs)

end
